theory Spec2Isabelle
  imports Main "HOL-Library.Word"
begin

unbundle bit_operations_syntax

section \<open>The assembler of the Johnny simulator (\<^verbatim>\<open>assembler.js\<close>)\<close>

text \<open>
  The source file has three stages, \<^verbatim>\<open>lexer\<close>, \<^verbatim>\<open>parser\<close> and \<^verbatim>\<open>assembler\<close>,
  and the entry point \<^verbatim>\<open>runAssembly\<close> that chains them. Each stage is embedded
  below as a HOL function under the name it has in the source. Exceptions are values of
  the type \<open>error\<close>; JavaScript strings are character lists; the numbers of the program
  are naturals or integers.

  Two boundaries of the model are fixed here. Characters are those of ASCII:
  \<^verbatim>\<open>toUpperCase\<close> is modelled on the letters \<^verbatim>\<open>a\<close> to \<^verbatim>\<open>z\<close> and leaves every other
  character alone. Numbers are exact: a JavaScript number is a double, which agrees with
  the model as long as every value stays at or below \<open>2 ^ 53\<close> in magnitude.
\<close>

subsection \<open>Tokens and the fixed tables\<close>

text \<open>
  \<^verbatim>\<open>type Token = [T_..., string | number]\<close>: a token is a pair of a type tag and a
  payload. \<open>token_type\<close> gives the tag, numbered as the constants of the source.
\<close>

datatype token =
    T_IDENT string
  | T_NUMBER nat
  | T_ARITH_SYMBOL char
  | T_LABEL_MAKER
  | T_INSTRUCTION nat
  | T_DIRECTIVE nat
  | T_LINENUM int
  | T_COMMA

fun token_type :: "token \<Rightarrow> nat" where
  "token_type (T_IDENT _) = 0"
| "token_type (T_NUMBER _) = 1"
| "token_type (T_ARITH_SYMBOL _) = 2"
| "token_type T_LABEL_MAKER = 3"
| "token_type (T_INSTRUCTION _) = 4"
| "token_type (T_DIRECTIVE _) = 5"
| "token_type (T_LINENUM _) = 6"
| "token_type T_COMMA = 7"

definition INSTRUCTIONS :: "string list" where
  "INSTRUCTIONS =
     [''~'', ''TAKE'', ''ADD'', ''SUB'', ''SAVE'', ''JMP'', ''TST'', ''INC'', ''DEC'',
      ''NULL'', ''HLT'']"

definition INSTRUCTION_ARG_LENGTHS :: "nat list" where
  "INSTRUCTION_ARG_LENGTHS = [0, 1, 1, 1, 1, 1, 1, 1, 1, 1, 0]"

definition D_ORG :: nat where "D_ORG = 0"
definition D_TIMES :: nat where "D_TIMES = 1"
definition D_DV :: nat where "D_DV = 2"

definition COMPILER_DIRECTIVES :: "string list" where
  "COMPILER_DIRECTIVES = [''ORG'', ''TIMES'', ''DV'']"

definition DIRECTIVE_ARG_LENGTHS :: "nat list" where
  "DIRECTIVE_ARG_LENGTHS = [1, 1, 1]"

definition NUMBERS :: string where
  "NUMBERS = ''1234567890''"

definition SYMBOLS :: string where
  "SYMBOLS = ''+-*()''"

subsection \<open>Errors\<close>

text \<open>
  One constructor for each \<^verbatim>\<open>throw\<close> of the source, one for each of the two
  \<^verbatim>\<open>catch\<close> blocks that wrap an error with a line number, and the three errors
  that the JavaScript runtime itself raises on the paths modelled here.
\<close>

datatype error =
    UnexpectedEoF
  | NoSuchDirective string int
  | UnexpectedSymbol char int
  | ExpectedToken "nat list" nat
  | InvalidArgumentCount string "nat option" nat
  | UnexpectedRootToken nat
  | ParsingLine int error
  | EmittingOutsideOfMemory
  | NotANumber "token list"
  | AssemblingLine int error
  | TypeError
  | ReferenceError string
  | SyntaxError

subsection \<open>The lexer\<close>

definition newline :: char where
  "newline = CHR 0x0A"

text \<open>
  \<^verbatim>\<open>String.prototype.toUpperCase\<close> on one ASCII character.
\<close>

definition toUpperCase :: "char \<Rightarrow> char" where
  "toUpperCase c =
     (let n = (of_char c :: nat) in if 97 \<le> n \<and> n \<le> 122 then char_of (n - 32) else c)"

text \<open>
  \<^verbatim>\<open>inputData.charAt(cursor)\<close> is a string of one character, or the empty string at
  the end of the input. The tests applied to it therefore take a string.
  \<^verbatim>\<open>hay.includes(e)\<close> (here \<open>includesStr\<close>) is the substring test, so it holds of the empty string.
\<close>

fun is_prefix :: "string \<Rightarrow> string \<Rightarrow> bool" where
  "is_prefix [] hay = True"
| "is_prefix (e # es) [] = False"
| "is_prefix (e # es) (h # hay) = (e = h \<and> is_prefix es hay)"

fun includesStr :: "string \<Rightarrow> string \<Rightarrow> bool" where
  "includesStr [] e = (e = [])"
| "includesStr (h # hay) e = (is_prefix e (h # hay) \<or> includesStr hay e)"

definition isLetter :: "string \<Rightarrow> bool" where
  "isLetter z =
     (case z of [] \<Rightarrow> False
      | c # _ \<Rightarrow> (of_char c :: nat) \<ge> 0x41 \<and> (of_char c :: nat) \<le> 0x5A)"

definition isLetterOrNumber :: "string \<Rightarrow> bool" where
  "isLetterOrNumber e = (isLetter e \<or> includesStr NUMBERS e)"

text \<open>
  \<^verbatim>\<open>collectWhile\<close> is a \<^verbatim>\<open>for(;;)\<close> loop that only leaves through the test.
  The remaining input stands for the cursor; the result is the collected text and the
  input that is left. At the end of the input \<^verbatim>\<open>charAt\<close> keeps answering the empty
  string, so a test that accepts the empty string never lets the loop return: that is
  the result \<open>None\<close>.
\<close>

fun collectWhile :: "(string \<Rightarrow> bool) \<Rightarrow> string \<Rightarrow> (string \<times> string) option" where
  "collectWhile condition [] = (if condition [] then None else Some ([], []))"
| "collectWhile condition (c # cs) =
     (if condition [c]
      then (case collectWhile condition cs of
              None \<Rightarrow> None
            | Some (output, rest) \<Rightarrow> Some (c # output, rest))
      else Some ([], c # cs))"

text \<open>\<^verbatim>\<open>parseInt\<close> on a run of decimal digits.\<close>

definition digit_value :: "char \<Rightarrow> nat" where
  "digit_value c = of_char c - 48"

definition parseInt :: "string \<Rightarrow> nat" where
  "parseInt ds = foldl (\<lambda>acc d. 10 * acc + digit_value d) 0 ds"

text \<open>\<^verbatim>\<open>Array.prototype.indexOf\<close>, with \<open>None\<close> for \<^verbatim>\<open>-1\<close>.\<close>

fun indexOf :: "'a list \<Rightarrow> 'a \<Rightarrow> nat option" where
  "indexOf [] x = None"
| "indexOf (y # ys) x =
     (if y = x then Some 0 else map_option Suc (indexOf ys x))"

lemma collectWhile_length:
  "collectWhile condition cs = Some (out, rest) \<Longrightarrow> length rest \<le> length cs"
proof (induction cs arbitrary: out rest)
  case Nil
  then show ?case by (simp split: if_splits)
next
  case (Cons c cs)
  then show ?case
    by (fastforce split: if_splits option.splits)
qed

text \<open>
  The main loop of \<^verbatim>\<open>lexer\<close>. Its state is the input from the cursor on, the line
  counter and the tokens pushed so far. \<^verbatim>\<open>next()\<close> reads one character, upper-cased
  by \<^verbatim>\<open>peek\<close>; inside the loop the cursor is below the length, so \<^verbatim>\<open>peek\<close> does not
  throw there. The result is \<open>None\<close> when a \<^verbatim>\<open>collectWhile\<close> does not return.
\<close>

function lexer_loop :: "string \<Rightarrow> int \<Rightarrow> token list \<Rightarrow> (error + token list) option" where
  "lexer_loop [] lineNumber outputTokens = Some (Inr outputTokens)"
| "lexer_loop (c # cs) lineNumber outputTokens =
     (let char = toUpperCase c in
      if char = CHR '' '' then lexer_loop cs lineNumber outputTokens
      else if char = newline
      then lexer_loop cs (lineNumber + 1) (outputTokens @ [T_LINENUM (lineNumber + 1)])
      else if includesStr NUMBERS [char]
      then (case collectWhile (includesStr NUMBERS) cs of
              None \<Rightarrow> None
            | Some (digits, rest) \<Rightarrow>
                lexer_loop rest lineNumber
                  (outputTokens @ [T_NUMBER (parseInt (char # digits))]))
      else if includesStr SYMBOLS [char]
      then lexer_loop cs lineNumber (outputTokens @ [T_ARITH_SYMBOL char])
      else if isLetter [char]
      then (case collectWhile isLetterOrNumber cs of
              None \<Rightarrow> None
            | Some (letters, rest) \<Rightarrow>
                (case indexOf INSTRUCTIONS (char # letters) of
                   None \<Rightarrow>
                     lexer_loop rest lineNumber (outputTokens @ [T_IDENT (char # letters)])
                 | Some instructionIndex \<Rightarrow>
                     lexer_loop rest lineNumber
                       (outputTokens @ [T_INSTRUCTION instructionIndex])))
      else if char = CHR '':''
      then lexer_loop cs lineNumber (outputTokens @ [T_LABEL_MAKER])
      else if char = CHR ''#''
      then (case collectWhile isLetter cs of
              None \<Rightarrow> None
            | Some (directive, rest) \<Rightarrow>
                (case indexOf COMPILER_DIRECTIVES directive of
                   None \<Rightarrow> Some (Inl (NoSuchDirective directive lineNumber))
                 | Some index \<Rightarrow>
                     lexer_loop rest lineNumber (outputTokens @ [T_DIRECTIVE index])))
      else if char = CHR '',''
      then lexer_loop cs lineNumber (outputTokens @ [T_COMMA])
      else if char = CHR '';''
      then (case collectWhile (\<lambda>e. e \<noteq> [newline]) cs of
              None \<Rightarrow> None
            | Some (comment, rest) \<Rightarrow> lexer_loop rest lineNumber outputTokens)
      else Some (Inl (UnexpectedSymbol char lineNumber)))"
  by pat_completeness auto
termination
  by (relation "measure (\<lambda>(cs, lineNumber, outputTokens). length cs)")
     (auto dest: collectWhile_length simp: less_Suc_eq_le)

declare lexer_loop.simps(2) [simp del]

definition lexer :: "string \<Rightarrow> (error + token list) option" where
  "lexer inputData = lexer_loop (inputData @ [newline]) 1 [T_LINENUM 1]"

subsection \<open>The parser\<close>

text \<open>\<^verbatim>\<open>type Expression = [E_..., content]\<close>.\<close>

datatype expression =
    E_LABEL string
  | E_INSTRUCTION nat "token list list"
  | E_DIRECTIVE nat "token list list"
  | E_LINENUM int

text \<open>
  Reading an array at an index: \<open>None\<close> is JavaScript's \<^verbatim>\<open>undefined\<close>, the value
  of a read out of range.
\<close>

definition nth_opt :: "'a list \<Rightarrow> nat \<Rightarrow> 'a option" where
  "nth_opt xs i = (if i < length xs then Some (xs ! i) else None)"

text \<open>
  The loop of \<^verbatim>\<open>collectCommaSeparated\<close>. The token list is the stream from the cursor
  on. \<^verbatim>\<open>peekTypeOfNext\<close> reads \<^verbatim>\<open>tokenStream[cursor][0]\<close>, which raises a
  \<^verbatim>\<open>TypeError\<close> once the cursor is past the last token.
\<close>

fun collectCommaSeparated_loop ::
  "token list \<Rightarrow> token list \<Rightarrow> token list list
     \<Rightarrow> error + (token list \<times> token list list \<times> token list)" where
  "collectCommaSeparated_loop [] buffer out = Inl TypeError"
| "collectCommaSeparated_loop (t # ts) buffer out =
     (if token_type t \<noteq> 6
      then (if token_type t = 7
            then collectCommaSeparated_loop ts [] (out @ [buffer])
            else collectCommaSeparated_loop ts (buffer @ [t]) out)
      else Inr (buffer, out, t # ts))"

text \<open>
  \<open>count\<close> is an entry of an arity table; it is \<^verbatim>\<open>undefined\<close> (\<open>None\<close>) for an
  index outside the table, and then differs from every length.
\<close>

definition collectCommaSeparated ::
  "string \<Rightarrow> nat option \<Rightarrow> token list \<Rightarrow> error + (token list list \<times> token list)" where
  "collectCommaSeparated name count ts =
     (case collectCommaSeparated_loop ts [] [] of
        Inl e \<Rightarrow> Inl e
      | Inr (buffer, out, rest) \<Rightarrow>
          (let out' = (if buffer \<noteq> [] then out @ [buffer] else out) in
           if count \<noteq> Some (length out')
           then Inl (InvalidArgumentCount name count (length out'))
           else Inr (out', rest)))"

definition table_name :: "string list \<Rightarrow> nat \<Rightarrow> string" where
  "table_name table i = (case nth_opt table i of None \<Rightarrow> ''undefined'' | Some n \<Rightarrow> n)"

lemma collectCommaSeparated_loop_length:
  "collectCommaSeparated_loop ts buffer out = Inr (b, out', rest)
     \<Longrightarrow> length rest \<le> length ts"
  by (induction ts arbitrary: buffer out) (auto split: if_splits intro: le_SucI)

lemma collectCommaSeparated_length:
  "collectCommaSeparated name count ts = Inr (args, rest) \<Longrightarrow> length rest \<le> length ts"
  by (auto simp: collectCommaSeparated_def Let_def split: sum.splits if_splits
           dest: collectCommaSeparated_loop_length)

text \<open>
  The \<^verbatim>\<open>while\<close> loop of \<^verbatim>\<open>parser\<close>, inside its \<^verbatim>\<open>try\<close>: every error leaves
  through the \<^verbatim>\<open>catch\<close>, wrapped with the line number current at that moment.
  \<^verbatim>\<open>expectAnyOf\<close> is written out at its two call sites.
\<close>

function parser_loop :: "token list \<Rightarrow> int \<Rightarrow> expression list \<Rightarrow> error + expression list" where
  "parser_loop [] lineNumber outputExpressions = Inr outputExpressions"
| "parser_loop (t # ts) lineNumber outputExpressions =
     (case t of
        T_LINENUM contents \<Rightarrow>
          parser_loop ts contents (outputExpressions @ [E_LINENUM contents])
      | T_IDENT contents \<Rightarrow>
          (case ts of
             [] \<Rightarrow> Inl (ParsingLine lineNumber TypeError)
           | t' # ts' \<Rightarrow>
               if token_type t' = 3
               then parser_loop ts' lineNumber (outputExpressions @ [E_LABEL contents])
               else Inl (ParsingLine lineNumber (ExpectedToken [3] (token_type t'))))
      | T_DIRECTIVE contents \<Rightarrow>
          (case collectCommaSeparated
                  (''Directive '' @ table_name COMPILER_DIRECTIVES contents)
                  (nth_opt DIRECTIVE_ARG_LENGTHS contents) ts of
             Inl e \<Rightarrow> Inl (ParsingLine lineNumber e)
           | Inr (args, rest) \<Rightarrow>
               parser_loop rest lineNumber (outputExpressions @ [E_DIRECTIVE contents args]))
      | T_INSTRUCTION contents \<Rightarrow>
          (case collectCommaSeparated
                  (''Instruction '' @ table_name INSTRUCTIONS contents)
                  (nth_opt INSTRUCTION_ARG_LENGTHS contents) ts of
             Inl e \<Rightarrow> Inl (ParsingLine lineNumber e)
           | Inr (args, rest) \<Rightarrow>
               parser_loop rest lineNumber
                 (outputExpressions @ [E_INSTRUCTION contents args]))
      | _ \<Rightarrow> Inl (ParsingLine lineNumber (ExpectedToken [5, 4, 0, 6] (token_type t))))"
  by pat_completeness auto
termination
  by (relation "measure (\<lambda>(ts, lineNumber, outputExpressions). length ts)")
     (auto dest: collectCommaSeparated_length simp: less_Suc_eq_le)

declare parser_loop.simps(2) [simp del]

definition parser :: "token list \<Rightarrow> error + expression list" where
  "parser tokenStream = parser_loop tokenStream (- 1) []"

subsection \<open>The code generator, first pass\<close>

text \<open>
  The variables that \<^verbatim>\<open>assembler\<close> declares and its inner functions update. A cell
  of \<^verbatim>\<open>memory\<close> is a number. An entry of \<^verbatim>\<open>valuesToRecalculate\<close> is an address and
  a token sequence, \<open>None\<close> where the source pushes \<^verbatim>\<open>undefined\<close> (a directive with
  an empty argument list). \<^verbatim>\<open>labels\<close> is an object used as a dictionary.
\<close>

record gen_state =
  memory :: "int list"
  valuesToRecalculate :: "(nat \<times> token list option) list"
  labels :: "string \<rightharpoonup> nat"
  org :: nat
  lineNumber :: int

definition initial_state :: gen_state where
  "initial_state =
     \<lparr>memory = replicate 1000 0, valuesToRecalculate = [], labels = Map.empty,
      org = 0, lineNumber = - 1\<rparr>"

text \<open>\<^verbatim>\<open>args[0]\<close>.\<close>

definition first_arg :: "token list list \<Rightarrow> token list option" where
  "first_arg args = (case args of [] \<Rightarrow> None | a # _ \<Rightarrow> Some a)"

definition assembleInstruction :: "nat \<times> token list list \<Rightarrow> nat \<times> token list option" where
  "assembleInstruction instr = (1000 * fst instr, first_arg (snd instr))"

text \<open>
  \<^verbatim>\<open>emit\<close>: the guard compares the cursor with the current length of the array. A
  write at an index equal to the length is let through, and a JavaScript array grows by
  one cell on such a write.
\<close>

definition emit :: "int \<Rightarrow> gen_state \<Rightarrow> error + gen_state" where
  "emit number s =
     (if org s > length (memory s) then Inl EmittingOutsideOfMemory
      else Inr (s\<lparr>memory :=
                    (if org s < length (memory s) then (memory s)[org s := number]
                     else memory s @ [number]),
                  org := org s + 1\<rparr>))"

text \<open>
  \<^verbatim>\<open>tokenStreamAsNumber\<close>: reading \<^verbatim>\<open>ts.length\<close> of \<^verbatim>\<open>undefined\<close> raises a
  \<^verbatim>\<open>TypeError\<close>.
\<close>

definition tokenStreamAsNumber :: "token list option \<Rightarrow> error + nat" where
  "tokenStreamAsNumber ts =
     (case ts of
        None \<Rightarrow> Inl TypeError
      | Some [T_NUMBER n] \<Rightarrow> Inr n
      | Some ts' \<Rightarrow> Inl (NotANumber ts'))"

text \<open>
  \<^verbatim>\<open>emitExpression(index)\<close> returns the next index. An error is returned with the
  value \<^verbatim>\<open>lineNumber\<close> has when it is thrown, which is what the \<^verbatim>\<open>catch\<close> of
  \<^verbatim>\<open>assembler\<close> reads. Destructuring \<^verbatim>\<open>expressions[index]\<close> past the end raises a
  \<^verbatim>\<open>TypeError\<close>. \<open>timesLoop\<close> is the \<^verbatim>\<open>for\<close> loop of the \<^verbatim>\<open>D_TIMES\<close> case, counting
  the iterations that remain.
\<close>

function emitExpression ::
    "expression list \<Rightarrow> nat \<Rightarrow> gen_state \<Rightarrow> (error \<times> int) + (nat \<times> gen_state)"
  and timesLoop ::
    "expression list \<Rightarrow> nat \<Rightarrow> nat \<Rightarrow> gen_state \<Rightarrow> (error \<times> int) + gen_state" where
  "emitExpression expressions index s =
     (if length expressions \<le> index then Inl (TypeError, lineNumber s)
      else
        (case expressions ! index of
           E_LINENUM contents \<Rightarrow> Inr (index + 1, s\<lparr>lineNumber := contents\<rparr>)
         | E_DIRECTIVE directiveType directiveArgs \<Rightarrow>
             if directiveType = D_ORG
             then (case tokenStreamAsNumber (first_arg directiveArgs) of
                     Inl e \<Rightarrow> Inl (e, lineNumber s)
                   | Inr n \<Rightarrow> Inr (index + 1, s\<lparr>org := n\<rparr>))
             else if directiveType = D_TIMES
             then (case tokenStreamAsNumber (first_arg directiveArgs) of
                     Inl e \<Rightarrow> Inl (e, lineNumber s)
                   | Inr n \<Rightarrow>
                       (case timesLoop expressions index n s of
                          Inl e \<Rightarrow> Inl e
                        | Inr s' \<Rightarrow> Inr (index + 2, s')))
             else if directiveType = D_DV
             then (case emit 0
                          (s\<lparr>valuesToRecalculate :=
                               valuesToRecalculate s @ [(org s, first_arg directiveArgs)]\<rparr>) of
                     Inl e \<Rightarrow> Inl (e, lineNumber s)
                   | Inr s' \<Rightarrow> Inr (index + 1, s'))
             else Inr (index + 1, s)
         | E_INSTRUCTION mnemonic args \<Rightarrow>
             (case assembleInstruction (mnemonic, args) of
                (base, recalc) \<Rightarrow>
                  (case emit (int base)
                          (if recalc \<noteq> None
                           then s\<lparr>valuesToRecalculate :=
                                    valuesToRecalculate s @ [(org s, recalc)]\<rparr>
                           else s) of
                     Inl e \<Rightarrow> Inl (e, lineNumber s)
                   | Inr s' \<Rightarrow> Inr (index + 1, s')))
         | E_LABEL contents \<Rightarrow>
             Inr (index + 1, s\<lparr>labels := (labels s)(contents \<mapsto> org s)\<rparr>)))"
| "timesLoop expressions index 0 s = Inr s"
| "timesLoop expressions index (Suc j) s =
     (case emitExpression expressions (index + 1) s of
        Inl e \<Rightarrow> Inl e
      | Inr (next_index, s') \<Rightarrow> timesLoop expressions index j s')"
  by pat_completeness auto
termination
  by (relation
       "inv_image (less_than <*lex*> less_than)
          (\<lambda>x. case x of
                 Inl (expressions, index, s) \<Rightarrow> (2 * (length expressions - index), 0)
               | Inr (expressions, index, j, s) \<Rightarrow>
                   (2 * (length expressions - index) - 1, j))")
     auto

declare emitExpression.simps [simp del]

lemma emitExpression_advances:
  "emitExpression expressions index s = Inr (index', s') \<Longrightarrow> index < index'"
  by (subst (asm) emitExpression.simps)
     (auto split: if_splits expression.splits sum.splits prod.splits)

text \<open>
  The loop \<^verbatim>\<open>for(let i = 0; i<expressions.length; i = emitExpression(i)) {}\<close>.
\<close>

function assembler_loop ::
  "expression list \<Rightarrow> nat \<Rightarrow> gen_state \<Rightarrow> (error \<times> int) + gen_state" where
  "assembler_loop expressions i s =
     (if i < length expressions
      then (case emitExpression expressions i s of
              Inl e \<Rightarrow> Inl e
            | Inr (i', s') \<Rightarrow> assembler_loop expressions i' s')
      else Inr s)"
  by pat_completeness auto
termination
  by (relation "measure (\<lambda>(expressions, i, s). length expressions - i)")
     (auto dest: emitExpression_advances)

declare assembler_loop.simps [simp del]

subsection \<open>The evaluation of a deferred expression\<close>

text \<open>
  The relocation pass hands the text of a token sequence to the \<^verbatim>\<open>eval\<close> of the
  JavaScript host, inside \<^verbatim>\<open>with(labels)\<close>. The host is not part of the source file;
  it is modelled on a fragment of JavaScript, and a text outside the fragment has the
  result \<open>Unmodelled\<close>, about which nothing is claimed. The fragment:
  \<^item> decimal literals without a leading zero, identifiers made of capital letters and
    digits, the binary operators \<^verbatim>\<open>+ - *\<close>, the prefix operators \<^verbatim>\<open>+ -\<close> and
    parentheses, with the precedence and the left-to-right evaluation of JavaScript;
  \<^item> the operators \<^verbatim>\<open>++\<close>, \<^verbatim>\<open>--\<close> and \<^verbatim>\<open>**\<close> (two adjacent signs always lex as
    one of them), calls, a literal followed by a letter (an exponent, a radix prefix
    or a syntax error) and arithmetic on values that are not numbers are outside;
  \<^item> numbers above \<open>2 ^ 53\<close> in magnitude, where a double rounds, are outside.
\<close>

datatype 'a outcome = Returns 'a | Throws error | Unmodelled

datatype jsvalue = JNumber int | JString string | JUndefined

text \<open>\<^verbatim>\<open>Number.prototype.toString\<close> on a natural number, and on an integer.\<close>

fun decimal :: "nat \<Rightarrow> string" where
  "decimal n =
     (if n < 10 then [char_of (48 + n)]
      else decimal (n div 10) @ [char_of (48 + n mod 10)])"

declare decimal.simps [simp del]

definition decimal_int :: "int \<Rightarrow> string" where
  "decimal_int n = (if n < 0 then CHR ''-'' # decimal (nat (- n)) else decimal (nat n))"

text \<open>
  \<^verbatim>\<open>e[1].toString()\<close>: the payload of a label marker and of a comma is \<^verbatim>\<open>null\<close>,
  on which the call raises a \<^verbatim>\<open>TypeError\<close> (\<open>None\<close>).
\<close>

fun token_text :: "token \<Rightarrow> string option" where
  "token_text (T_IDENT name) = Some name"
| "token_text (T_NUMBER n) = Some (decimal n)"
| "token_text (T_ARITH_SYMBOL c) = Some [c]"
| "token_text T_LABEL_MAKER = None"
| "token_text (T_INSTRUCTION i) = Some (decimal i)"
| "token_text (T_DIRECTIVE i) = Some (decimal i)"
| "token_text (T_LINENUM n) = Some (decimal_int n)"
| "token_text T_COMMA = None"

fun exact_payload :: "token \<Rightarrow> bool" where
  "exact_payload (T_NUMBER n) = (int n \<le> 2 ^ 53)"
| "exact_payload (T_INSTRUCTION i) = (int i \<le> 2 ^ 53)"
| "exact_payload (T_DIRECTIVE i) = (int i \<le> 2 ^ 53)"
| "exact_payload (T_LINENUM n) = (\<bar>n\<bar> \<le> 2 ^ 53)"
| "exact_payload _ = True"

text \<open>\<^verbatim>\<open>value.map(e => e[1].toString()).join('')\<close>.\<close>

definition source_text :: "token list \<Rightarrow> string outcome" where
  "source_text ts =
     (if list_ex (\<lambda>t. token_text t = None) ts then Throws TypeError
      else if list_all exact_payload ts
      then Returns (concat (map (\<lambda>t. case token_text t of None \<Rightarrow> [] | Some x \<Rightarrow> x) ts))
      else Unmodelled)"

text \<open>The tokens of the fragment, and its lexer; \<open>None\<close> is a text outside the fragment.\<close>

datatype jstoken = J_NUM nat | J_ID string | J_PLUS | J_MINUS | J_STAR | J_LPAREN | J_RPAREN

definition is_digit :: "char \<Rightarrow> bool" where
  "is_digit c = includesStr NUMBERS [c]"

definition is_capital :: "char \<Rightarrow> bool" where
  "is_capital c = isLetter [c]"

definition is_name_char :: "char \<Rightarrow> bool" where
  "is_name_char c = (is_capital c \<or> is_digit c)"

definition starts_with :: "(char \<Rightarrow> bool) \<Rightarrow> string \<Rightarrow> bool" where
  "starts_with p cs = (case cs of [] \<Rightarrow> False | c # _ \<Rightarrow> p c)"

function js_lex :: "string \<Rightarrow> jstoken list option" where
  "js_lex [] = Some []"
| "js_lex (c # cs) =
     (if is_digit c
      then (let ds = c # takeWhile is_digit cs; rest = dropWhile is_digit cs in
            if (c = CHR ''0'' \<and> 1 < length ds) \<or> starts_with is_capital rest
               \<or> 2 ^ 53 < int (parseInt ds)
            then None
            else map_option (Cons (J_NUM (parseInt ds))) (js_lex rest))
      else if is_capital c
      then map_option (Cons (J_ID (c # takeWhile is_name_char cs)))
             (js_lex (dropWhile is_name_char cs))
      else if c = CHR ''+''
      then (if starts_with (\<lambda>d. d = CHR ''+'') cs then None
            else map_option (Cons J_PLUS) (js_lex cs))
      else if c = CHR ''-''
      then (if starts_with (\<lambda>d. d = CHR ''-'') cs then None
            else map_option (Cons J_MINUS) (js_lex cs))
      else if c = CHR ''*''
      then (if starts_with (\<lambda>d. d = CHR ''*'') cs then None
            else map_option (Cons J_STAR) (js_lex cs))
      else if c = CHR ''(''
      then map_option (Cons J_LPAREN) (js_lex cs)
      else if c = CHR '')''
      then map_option (Cons J_RPAREN) (js_lex cs)
      else None)"
  by pat_completeness auto
termination
  by (relation "measure length") (auto simp: less_Suc_eq_le length_dropWhile_le)

declare js_lex.simps(2) [simp del]

text \<open>
  The syntax tree of the fragment and an operator-precedence parser for it: a stack of
  pending operators and a stack of finished operands. \<open>expect_operand\<close> tells whether
  the next token must start an operand. An opening parenthesis after an operand is a
  call, which is outside the fragment; every other failure is a \<^verbatim>\<open>SyntaxError\<close>.
\<close>

datatype jsexpr =
    Num nat
  | Var string
  | Neg jsexpr
  | Pos jsexpr
  | Add jsexpr jsexpr
  | Sub jsexpr jsexpr
  | Mul jsexpr jsexpr

datatype stack_op = S_ADD | S_SUB | S_MUL | S_NEG | S_POS | S_LPAREN

fun precedence :: "stack_op \<Rightarrow> nat" where
  "precedence S_LPAREN = 0"
| "precedence S_ADD = 1"
| "precedence S_SUB = 1"
| "precedence S_MUL = 2"
| "precedence S_NEG = 3"
| "precedence S_POS = 3"

fun apply_op :: "stack_op \<Rightarrow> jsexpr list \<Rightarrow> jsexpr list option" where
  "apply_op S_ADD (b # a # operands) = Some (Add a b # operands)"
| "apply_op S_SUB (b # a # operands) = Some (Sub a b # operands)"
| "apply_op S_MUL (b # a # operands) = Some (Mul a b # operands)"
| "apply_op S_NEG (a # operands) = Some (Neg a # operands)"
| "apply_op S_POS (a # operands) = Some (Pos a # operands)"
| "apply_op _ _ = None"

fun reduce :: "nat \<Rightarrow> stack_op list \<Rightarrow> jsexpr list \<Rightarrow> (stack_op list \<times> jsexpr list) option" where
  "reduce p [] operands = Some ([], operands)"
| "reduce p (operator # ops) operands =
     (if p \<le> precedence operator
      then (case apply_op operator operands of
              None \<Rightarrow> None
            | Some operands' \<Rightarrow> reduce p ops operands')
      else Some (operator # ops, operands))"

definition binary_op :: "jstoken \<Rightarrow> stack_op option" where
  "binary_op t =
     (case t of J_PLUS \<Rightarrow> Some S_ADD | J_MINUS \<Rightarrow> Some S_SUB | J_STAR \<Rightarrow> Some S_MUL
      | _ \<Rightarrow> None)"

fun js_parse :: "jstoken list \<Rightarrow> bool \<Rightarrow> stack_op list \<Rightarrow> jsexpr list \<Rightarrow> jsexpr outcome" where
  "js_parse [] expect_operand ops operands =
     (if expect_operand then Throws SyntaxError
      else (case reduce 1 ops operands of
              Some ([], [e]) \<Rightarrow> Returns e
            | _ \<Rightarrow> Throws SyntaxError))"
| "js_parse (t # ts) expect_operand ops operands =
     (if expect_operand
      then (case t of
              J_NUM n \<Rightarrow> js_parse ts False ops (Num n # operands)
            | J_ID x \<Rightarrow> js_parse ts False ops (Var x # operands)
            | J_PLUS \<Rightarrow> js_parse ts True (S_POS # ops) operands
            | J_MINUS \<Rightarrow> js_parse ts True (S_NEG # ops) operands
            | J_LPAREN \<Rightarrow> js_parse ts True (S_LPAREN # ops) operands
            | _ \<Rightarrow> Throws SyntaxError)
      else if t = J_LPAREN then Unmodelled
      else if t = J_RPAREN
      then (case reduce 1 ops operands of
              Some (S_LPAREN # ops', operands') \<Rightarrow> js_parse ts False ops' operands'
            | _ \<Rightarrow> Throws SyntaxError)
      else (case binary_op t of
              None \<Rightarrow> Throws SyntaxError
            | Some operator \<Rightarrow>
                (case reduce (precedence operator) ops operands of
                   None \<Rightarrow> Throws SyntaxError
                 | Some (ops', operands') \<Rightarrow>
                     js_parse ts True (operator # ops') operands')))"

text \<open>
  The scope of the evaluated text, innermost first: the object \<^verbatim>\<open>labels\<close>; the
  variables of \<^verbatim>\<open>assembler\<close>, none of which is written in capitals; the constants
  of the source file, of which \<^verbatim>\<open>INSTRUCTIONS\<close> (an array), \<^verbatim>\<open>NUMBERS\<close> and
  \<^verbatim>\<open>SYMBOLS\<close> (strings) are written in capitals without an underscore; the global
  object of the host. \<open>host x\<close> tells whether the host binds the name \<open>x\<close>; the value
  it binds is not modelled. A name that nothing binds raises a \<^verbatim>\<open>ReferenceError\<close>.
\<close>

definition js_number :: "int \<Rightarrow> jsvalue outcome" where
  "js_number n = (if \<bar>n\<bar> \<le> 2 ^ 53 then Returns (JNumber n) else Unmodelled)"

definition resolve :: "(string \<Rightarrow> bool) \<Rightarrow> (string \<rightharpoonup> nat) \<Rightarrow> string \<Rightarrow> jsvalue outcome" where
  "resolve host lbls x =
     (case lbls x of
        Some v \<Rightarrow> js_number (int v)
      | None \<Rightarrow>
          if x = ''INSTRUCTIONS'' then Unmodelled
          else if x = ''NUMBERS'' then Returns (JString NUMBERS)
          else if x = ''SYMBOLS'' then Returns (JString SYMBOLS)
          else if host x then Unmodelled
          else Throws (ReferenceError x))"

definition unary_arith :: "(int \<Rightarrow> int) \<Rightarrow> jsvalue outcome \<Rightarrow> jsvalue outcome" where
  "unary_arith f a =
     (case a of
        Returns (JNumber x) \<Rightarrow> js_number (f x)
      | Returns _ \<Rightarrow> Unmodelled
      | other \<Rightarrow> other)"

text \<open>
  Both operands are evaluated, the left one first, before the operator looks at their
  values: an error of the right operand is raised even if the left one is not a number.
\<close>

definition binary_arith ::
  "(int \<Rightarrow> int \<Rightarrow> int) \<Rightarrow> jsvalue outcome \<Rightarrow> jsvalue outcome \<Rightarrow> jsvalue outcome" where
  "binary_arith f a b =
     (case a of
        Returns va \<Rightarrow>
          (case b of
             Returns vb \<Rightarrow>
               (case (va, vb) of
                  (JNumber x, JNumber y) \<Rightarrow> js_number (f x y)
                | _ \<Rightarrow> Unmodelled)
           | other \<Rightarrow> other)
      | other \<Rightarrow> other)"

fun js_value :: "(string \<Rightarrow> bool) \<Rightarrow> (string \<rightharpoonup> nat) \<Rightarrow> jsexpr \<Rightarrow> jsvalue outcome" where
  "js_value host lbls (Num n) = js_number (int n)"
| "js_value host lbls (Var x) = resolve host lbls x"
| "js_value host lbls (Neg a) = unary_arith uminus (js_value host lbls a)"
| "js_value host lbls (Pos a) = unary_arith (\<lambda>x. x) (js_value host lbls a)"
| "js_value host lbls (Add a b) =
     binary_arith (+) (js_value host lbls a) (js_value host lbls b)"
| "js_value host lbls (Sub a b) =
     binary_arith (-) (js_value host lbls a) (js_value host lbls b)"
| "js_value host lbls (Mul a b) =
     binary_arith (*) (js_value host lbls a) (js_value host lbls b)"

text \<open>
  \<^verbatim>\<open>with(labels) { eval(text) }\<close>. The empty text is an empty script, whose value is
  \<^verbatim>\<open>undefined\<close>. A text is parsed as a whole before any of it is evaluated.
\<close>

definition js_eval :: "(string \<Rightarrow> bool) \<Rightarrow> (string \<rightharpoonup> nat) \<Rightarrow> string \<Rightarrow> jsvalue outcome" where
  "js_eval host lbls text =
     (if text = [] then Returns JUndefined
      else (case js_lex text of
              None \<Rightarrow> Unmodelled
            | Some toks \<Rightarrow>
                (case js_parse toks True [] [] of
                   Returns e \<Rightarrow> js_value host lbls e
                 | Throws e \<Rightarrow> Throws e
                 | Unmodelled \<Rightarrow> Unmodelled)))"

subsection \<open>The relocation pass and the assembler\<close>

text \<open>
  \<^verbatim>\<open>ToInt32\<close>, which the operator \<^verbatim>\<open>|\<close> applies to both operands: a number wraps
  into the signed 32-bit range; \<^verbatim>\<open>undefined\<close> and a string that is not a numeral
  count as \<^verbatim>\<open>NaN\<close> and become \<open>0\<close>. The strings covered are runs of digits and
  runs of the characters of \<^verbatim>\<open>SYMBOLS\<close>, which is all that the fragment produces.
\<close>

definition ToInt32 :: "int \<Rightarrow> int" where
  "ToInt32 n = sint (word_of_int n :: 32 word)"

definition value_to_int32 :: "jsvalue \<Rightarrow> int option" where
  "value_to_int32 v =
     (case v of
        JNumber n \<Rightarrow> Some (ToInt32 n)
      | JUndefined \<Rightarrow> Some 0
      | JString str \<Rightarrow>
          if str \<noteq> [] \<and> list_all is_digit str \<and> int (parseInt str) \<le> 2 ^ 53
          then Some (ToInt32 (int (parseInt str)))
          else if str \<noteq> [] \<and> list_all (\<lambda>c. includesStr SYMBOLS [c]) str then Some 0
          else None)"

definition bitwise_or :: "int \<Rightarrow> int \<Rightarrow> int" where
  "bitwise_or a b = sint ((word_of_int a :: 32 word) OR word_of_int b)"

text \<open>
  The loop over \<^verbatim>\<open>valuesToRecalculate\<close>. It stands outside the \<^verbatim>\<open>try\<close> block of
  \<^verbatim>\<open>assembler\<close>, so an error leaves it as it is. Every recorded address has been
  written by \<^verbatim>\<open>emit\<close> and lies inside the array; a write elsewhere would leave holes
  in the array and is not modelled.
\<close>

fun relocate ::
  "(string \<Rightarrow> bool) \<Rightarrow> (string \<rightharpoonup> nat) \<Rightarrow> (nat \<times> token list option) list \<Rightarrow> int list
     \<Rightarrow> int list outcome" where
  "relocate host lbls [] mem = Returns mem"
| "relocate host lbls ((address, v) # entries) mem =
     (case v of
        None \<Rightarrow> Throws TypeError
      | Some ts \<Rightarrow>
          (case source_text ts of
             Throws e \<Rightarrow> Throws e
           | Unmodelled \<Rightarrow> Unmodelled
           | Returns text \<Rightarrow>
               (case js_eval host lbls text of
                  Throws e \<Rightarrow> Throws e
                | Unmodelled \<Rightarrow> Unmodelled
                | Returns evaluated \<Rightarrow>
                    (case value_to_int32 evaluated of
                       None \<Rightarrow> Unmodelled
                     | Some n \<Rightarrow>
                         if address < length mem \<and> \<bar>mem ! address\<bar> \<le> 2 ^ 53
                         then relocate host lbls entries
                                (mem[address := bitwise_or (mem ! address) n])
                         else Unmodelled))))"

definition assembler :: "(string \<Rightarrow> bool) \<Rightarrow> expression list \<Rightarrow> int list outcome" where
  "assembler host expressions =
     (case assembler_loop expressions 0 initial_state of
        Inl (e, line) \<Rightarrow> Throws (AssemblingLine line e)
      | Inr s \<Rightarrow> relocate host (labels s) (valuesToRecalculate s) (memory s))"

subsection \<open>The entry point\<close>

text \<open>
  \<^verbatim>\<open>assembler(parser(lexer(textContents)))\<close>; the result is \<open>None\<close> if the lexer does
  not return. \<^verbatim>\<open>runAssembly\<close> upper-cases the text first; it shows an error in an
  alert and otherwise hands every cell of the returned array to \<^verbatim>\<open>writeToRam\<close>.
\<close>

definition assemble_text :: "(string \<Rightarrow> bool) \<Rightarrow> string \<Rightarrow> int list outcome option" where
  "assemble_text host textContents =
     (case lexer textContents of
        None \<Rightarrow> None
      | Some (Inl e) \<Rightarrow> Some (Throws e)
      | Some (Inr tokens) \<Rightarrow>
          (case parser tokens of
             Inl e \<Rightarrow> Some (Throws e)
           | Inr expressions \<Rightarrow> Some (assembler host expressions)))"

definition runAssembly :: "(string \<Rightarrow> bool) \<Rightarrow> string \<Rightarrow> int list outcome option" where
  "runAssembly host textContents = assemble_text host (map toUpperCase textContents)"

text \<open>A host whose global object binds no name written in capitals.\<close>

definition bare_host :: "string \<Rightarrow> bool" where
  "bare_host x = False"

section \<open>Notions used in the statements\<close>

text \<open>
  An identifier as the lexer produces it: a capital letter followed by capital letters
  and digits.
\<close>

definition is_identifier :: "string \<Rightarrow> bool" where
  "is_identifier x =
     (case x of [] \<Rightarrow> False | c # cs \<Rightarrow> is_capital c \<and> list_all is_name_char cs)"

text \<open>
  A text made of spaces, newlines and comments only. A comment runs from a semicolon
  to the end of its line.
\<close>

function blank_text :: "string \<Rightarrow> bool" where
  "blank_text [] = True"
| "blank_text (c # cs) =
     (if c = CHR '' '' \<or> c = newline then blank_text cs
      else if c = CHR '';'' then blank_text (dropWhile (\<lambda>d. d \<noteq> newline) cs)
      else False)"
  by pat_completeness auto
termination
  by (relation "measure length") (auto simp: less_Suc_eq_le length_dropWhile_le)

text \<open>
  An expression that the first pass handles without a label and without a deferred
  expression: a line marker, or an instruction without operand. \<open>emitted_words\<close> lists
  the base words of the instructions of a sequence, and \<open>last_line\<close> is the line
  number current after a sequence.
\<close>

fun plain :: "expression \<Rightarrow> bool" where
  "plain (E_LINENUM n) = True"
| "plain (E_INSTRUCTION k args) = (args = [])"
| "plain _ = False"

fun emitted_words :: "expression list \<Rightarrow> int list" where
  "emitted_words [] = []"
| "emitted_words (E_INSTRUCTION k args # es) = int (1000 * k) # emitted_words es"
| "emitted_words (_ # es) = emitted_words es"

fun last_line :: "int \<Rightarrow> expression list \<Rightarrow> int" where
  "last_line l [] = l"
| "last_line l (E_LINENUM n # es) = last_line n es"
| "last_line l (_ # es) = last_line l es"

text \<open>
  The array after the words \<open>ws\<close> have been written from \<open>address\<close> on, one cell after
  the other.
\<close>

definition written :: "int list \<Rightarrow> nat \<Rightarrow> int list \<Rightarrow> int list" where
  "written mem address ws = take address mem @ ws @ drop (address + length ws) mem"

text \<open>
  The shape of what the parser returns: an expression that took an argument list (a
  directive or an instruction) is followed by a line marker.
\<close>

fun is_line_marker :: "expression \<Rightarrow> bool" where
  "is_line_marker (E_LINENUM n) = True"
| "is_line_marker _ = False"

fun takes_arguments :: "expression \<Rightarrow> bool" where
  "takes_arguments (E_DIRECTIVE d args) = True"
| "takes_arguments (E_INSTRUCTION k args) = True"
| "takes_arguments _ = False"

fun lines_closed :: "expression list \<Rightarrow> bool" where
  "lines_closed [] = True"
| "lines_closed [e] = (\<not> takes_arguments e)"
| "lines_closed (e # e' # es) =
     ((if takes_arguments e then is_line_marker e' else True) \<and> lines_closed (e' # es))"

fun starts_with_line_marker :: "token list \<Rightarrow> bool" where
  "starts_with_line_marker (T_LINENUM n # ts) = True"
| "starts_with_line_marker _ = False"

text \<open>
  The identifiers that occur in an expression of the fragment, and what it means that
  nothing in the scope of the evaluated text binds a name.
\<close>

fun identifiers :: "jsexpr \<Rightarrow> string set" where
  "identifiers (Num n) = {}"
| "identifiers (Var x) = {x}"
| "identifiers (Neg a) = identifiers a"
| "identifiers (Pos a) = identifiers a"
| "identifiers (Add a b) = identifiers a \<union> identifiers b"
| "identifiers (Sub a b) = identifiers a \<union> identifiers b"
| "identifiers (Mul a b) = identifiers a \<union> identifiers b"

definition unbound :: "(string \<Rightarrow> bool) \<Rightarrow> (string \<rightharpoonup> nat) \<Rightarrow> string \<Rightarrow> bool" where
  "unbound host lbls x =
     (lbls x = None \<and> x \<noteq> ''INSTRUCTIONS'' \<and> x \<noteq> ''NUMBERS'' \<and> x \<noteq> ''SYMBOLS'' \<and> \<not> host x)"

section \<open>Properties\<close>

subsection \<open>The lexer returns\<close>

text \<open>
  The newline that \<^verbatim>\<open>lexer\<close> appends stops every \<^verbatim>\<open>collectWhile\<close>: no test accepts
  it. So no loop of the lexer runs forever, whatever the text.
\<close>

lemma collectWhile_returns:
  assumes "cs \<noteq> []" and "last cs = newline" and "\<not> p [newline]"
  shows "\<exists>a rest. collectWhile p cs = Some (a, rest) \<and> rest \<noteq> [] \<and> last rest = newline"
  using assms(1,2)
proof (induction cs)
  case Nil
  then show ?case by simp
next
  case (Cons c cs)
  show ?case
  proof (cases "p [c]")
    case True
    with assms(3) have "c \<noteq> newline"
      by auto
    with Cons.prems have "cs \<noteq> []" "last cs = newline"
      by (auto split: if_splits)
    with Cons.IH obtain a rest where
      "collectWhile p cs = Some (a, rest)" "rest \<noteq> []" "last rest = newline"
      by blast
    with True show ?thesis
      by simp
  next
    case False
    with Cons.prems show ?thesis
      by simp
  qed
qed

lemma toUpperCase_newline: "toUpperCase newline = newline"
  by (simp add: toUpperCase_def newline_def)

lemma lexer_conditions_reject_newline:
  "\<not> includesStr NUMBERS [newline]" "\<not> isLetterOrNumber [newline]" "\<not> isLetter [newline]"
  "\<not> [newline] \<noteq> [newline]"
  by (simp_all add: NUMBERS_def isLetterOrNumber_def isLetter_def newline_def)

lemma if_returns:
  "(c \<Longrightarrow> \<exists>r. a = Some r) \<Longrightarrow> (\<not> c \<Longrightarrow> \<exists>r. b = Some r)
     \<Longrightarrow> \<exists>r. (if c then a else b) = Some r"
  by simp

lemma lexer_loop_returns:
  "cs = [] \<or> last cs = newline \<Longrightarrow> \<exists>r. lexer_loop cs ln out = Some r"
proof (induction "length cs" arbitrary: cs ln out rule: less_induct)
  case less
  show ?case
  proof (cases cs)
    case Nil
    then show ?thesis by simp
  next
    case (Cons c cs')
    have IH: "\<exists>r. lexer_loop rest ln' out' = Some r"
      if "length rest \<le> length cs'" and "rest = [] \<or> last rest = newline" for rest ln' out'
      using less.hyps [of rest ln' out'] that Cons by simp
    from less.prems Cons have tail: "cs' = [] \<or> last cs' = newline"
      by (auto split: if_splits)
    have direct: "\<exists>r. lexer_loop cs' ln' out' = Some r" for ln' out'
      using IH [of cs'] tail by simp
    have collected: "\<exists>r. (case collectWhile p cs' of None \<Rightarrow> None
                            | Some (a, rest) \<Rightarrow> f a rest) = Some r"
      if "\<not> p [newline]" and "toUpperCase c \<noteq> newline"
        and "\<And>a rest. length rest \<le> length cs' \<Longrightarrow> rest \<noteq> [] \<Longrightarrow> last rest = newline
               \<Longrightarrow> \<exists>r. f a rest = Some r" for p f
    proof -
      from that(2) less.prems Cons have nonempty: "cs' \<noteq> []" and ends: "last cs' = newline"
        by (auto simp: toUpperCase_newline split: if_splits)
      from collectWhile_returns [of cs' p, OF nonempty ends that(1)] obtain a rest where
        "collectWhile p cs' = Some (a, rest)" "rest \<noteq> []" "last rest = newline"
        by blast
      with that(3) [of rest a] collectWhile_length [of p cs' a rest] show ?thesis
        by simp
    qed
    show ?thesis
      unfolding Cons lexer_loop.simps(2) Let_def
      apply (intro if_returns)
      subgoal by (rule direct)
      subgoal by (rule direct)
      subgoal by (rule collected) (simp_all add: lexer_conditions_reject_newline IH)
      subgoal by (rule direct)
      subgoal
        by (rule collected)
           (auto simp: lexer_conditions_reject_newline intro: IH split: option.splits)
      subgoal by (rule direct)
      subgoal
        by (rule collected)
           (auto simp: lexer_conditions_reject_newline intro: IH split: option.splits)
      subgoal by (rule direct)
      subgoal by (rule collected) (simp_all add: IH)
      subgoal by simp
      done
  qed
qed

lemma lexer_returns: "\<exists>r. lexer inputData = Some r"
  by (simp add: lexer_def lexer_loop_returns)

subsection \<open>Evaluating the stages on a given text\<close>

lemmas pass1_defs = assembler_def assembler_loop.simps emitExpression.simps initial_state_def
  emit_def tokenStreamAsNumber_def first_arg_def assembleInstruction_def D_ORG_def D_TIMES_def
  D_DV_def

lemma assemble_textI:
  "lexer t = Some (Inr toks) \<Longrightarrow> parser toks = Inr exprs \<Longrightarrow> assembler host exprs = r
     \<Longrightarrow> assemble_text host t = Some r"
  by (simp add: assemble_text_def)

subsection \<open>Evaluating an identifier\<close>

lemma is_digit_iff: "is_digit c \<longleftrightarrow> c \<in> set ''1234567890''"
  by (auto simp: is_digit_def NUMBERS_def)

lemma is_capital_iff: "is_capital c \<longleftrightarrow> 65 \<le> (of_char c :: nat) \<and> (of_char c :: nat) \<le> 90"
  by (simp add: is_capital_def isLetter_def)

lemma capital_not_digit: "is_capital c \<Longrightarrow> \<not> is_digit c"
  by (auto simp: is_capital_iff is_digit_iff)

lemma takeWhile_all: "list_all p xs \<Longrightarrow> takeWhile p xs = xs"
  by (induction xs) auto

lemma dropWhile_all: "list_all p xs \<Longrightarrow> dropWhile p xs = []"
  by (induction xs) auto

lemma js_lex_identifier: "is_identifier x \<Longrightarrow> js_lex x = Some [J_ID x]"
  by (cases x)
     (simp_all add: is_identifier_def js_lex.simps(2) capital_not_digit takeWhile_all
        dropWhile_all)

lemma js_eval_identifier: "is_identifier x \<Longrightarrow> js_eval host lbls x = resolve host lbls x"
  by (cases x) (simp_all add: js_lex_identifier js_eval_def is_identifier_def)

lemma source_text_identifier: "source_text [T_IDENT x] = Returns x"
  by (simp add: source_text_def)


subsection \<open>The first pass over plain expressions\<close>

lemma written_Nil: "written mem address [] = mem"
  by (simp add: written_def)

lemma written_Cons:
  assumes "address \<le> length mem"
  shows "written (if address < length mem then mem[address := w] else mem @ [w])
           (Suc address) ws
         = written mem address (w # ws)"
proof (cases "address < length mem")
  case True
  then show ?thesis
    by (simp add: written_def take_Suc_conv_app_nth)
next
  case False
  with assms have "address = length mem" by simp
  then show ?thesis
    by (simp add: written_def)
qed

lemma length_written:
  "address \<le> length mem \<Longrightarrow> length (written mem address ws) = max (length mem) (address + length ws)"
  by (auto simp: written_def)

lemma emit_in_range:
  "org s \<le> length (memory s) \<Longrightarrow>
   emit w s = Inr (s\<lparr>memory := (if org s < length (memory s) then (memory s)[org s := w]
                                else memory s @ [w]),
                     org := Suc (org s)\<rparr>)"
  by (simp add: emit_def)

lemma walk_plain:
  assumes "list_all plain mid" and "org s \<le> length (memory s)"
  shows "assembler_loop (pre @ mid @ post) (length pre) s
         = assembler_loop (pre @ mid @ post) (length pre + length mid)
             (s\<lparr>memory := written (memory s) (org s) (emitted_words mid),
                org := org s + length (emitted_words mid),
                lineNumber := last_line (lineNumber s) mid\<rparr>)"
  using assms
proof (induction mid arbitrary: pre s)
  case Nil
  then show ?case by (simp add: written_Nil)
next
  case (Cons e mid)
  let ?es = "pre @ e # mid @ post"
  have IH: "assembler_loop ?es (Suc (length pre)) s'
      = assembler_loop ?es (Suc (length pre + length mid))
          (s'\<lparr>memory := written (memory s') (org s') (emitted_words mid),
              org := org s' + length (emitted_words mid),
              lineNumber := last_line (lineNumber s') mid\<rparr>)"
    if "org s' \<le> length (memory s')" for s'
    using Cons.IH [of s' "pre @ [e]"] Cons.prems(1) that by simp
  have loop: "assembler_loop ?es (length pre) s = assembler_loop ?es i' s'"
    if "emitExpression ?es (length pre) s = Inr (i', s')" for i' s'
    by (subst assembler_loop.simps) (simp add: that)
  show ?case
  proof (cases e)
    case (E_LINENUM n)
    have "emitExpression ?es (length pre) s = Inr (Suc (length pre), s\<lparr>lineNumber := n\<rparr>)"
      by (subst emitExpression.simps) (simp add: E_LINENUM)
    then have "assembler_loop ?es (length pre) s
        = assembler_loop ?es (Suc (length pre)) (s\<lparr>lineNumber := n\<rparr>)"
      by (rule loop)
    with IH [of "s\<lparr>lineNumber := n\<rparr>"] Cons.prems(2) show ?thesis
      by (simp add: E_LINENUM)
  next
    case (E_INSTRUCTION k args)
    with Cons.prems have args: "args = []" by simp
    let ?w = "int (1000 * k)"
    let ?s = "s\<lparr>memory := (if org s < length (memory s) then (memory s)[org s := ?w]
                               else memory s @ [?w]),
                  org := Suc (org s)\<rparr>"
    have "emitExpression ?es (length pre) s = Inr (Suc (length pre), ?s)"
      using Cons.prems(2)
      by (subst emitExpression.simps)
         (simp add: E_INSTRUCTION args assembleInstruction_def first_arg_def emit_in_range)
    then have "assembler_loop ?es (length pre) s = assembler_loop ?es (Suc (length pre)) ?s"
      by (rule loop)
    moreover have "org ?s \<le> length (memory ?s)"
      using Cons.prems(2) by simp
    ultimately show ?thesis
      using IH [of ?s] Cons.prems(2) by (simp add: E_INSTRUCTION args written_Cons)
  next
    case (E_LABEL x)
    with Cons.prems show ?thesis by simp
  next
    case (E_DIRECTIVE d a)
    with Cons.prems show ?thesis by simp
  qed
qed

lemma written_written:
  "address \<le> length mem \<Longrightarrow>
   written (written mem address ws) (address + length ws) vs = written mem address (ws @ vs)"
  by (simp add: written_def ac_simps)

lemma written_one:
  "address \<le> length mem \<Longrightarrow>
   (if address < length mem then mem[address := w] else mem @ [w]) = written mem address [w]"
  using written_Cons [of address mem w "[]"] by (simp add: written_Nil)

lemma emit_written:
  "org s \<le> length (memory s) \<Longrightarrow>
   emit w s = Inr (s\<lparr>memory := written (memory s) (org s) [w], org := Suc (org s)\<rparr>)"
  by (simp add: emit_in_range written_one)





subsection \<open>The repeat directive\<close>

text \<open>
  On an expression sequence in which the directive is directly followed by an
  instruction, the first pass does write the base word \<open>n\<close> times.
\<close>

lemma emitExpression_instruction:
  assumes "index < length expressions" and "expressions ! index = E_INSTRUCTION k args"
    and "org s \<le> length (memory s)"
  shows "emitExpression expressions index s
         = Inr (index + 1,
                s\<lparr>valuesToRecalculate :=
                     valuesToRecalculate s
                     @ (if args = [] then [] else [(org s, first_arg args)]),
                   memory := written (memory s) (org s) [int (1000 * k)],
                   org := Suc (org s)\<rparr>)"
  using assms
  by (subst emitExpression.simps)
     (auto simp: assembleInstruction_def first_arg_def emit_written split: list.splits)

lemma timesLoop_instruction:
  assumes "index + 1 < length expressions"
    and "expressions ! (index + 1) = E_INSTRUCTION k args"
    and "org s \<le> length (memory s)"
  shows "timesLoop expressions index n s
         = Inr (s\<lparr>valuesToRecalculate :=
                     valuesToRecalculate s
                     @ (if args = [] then []
                        else map (\<lambda>j. (org s + j, first_arg args)) [0..<n]),
                   memory := written (memory s) (org s) (replicate n (int (1000 * k))),
                   org := org s + n\<rparr>)"
  using assms(3)
proof (induction n arbitrary: s)
  case 0
  then show ?case
    by (simp add: written_Nil)
next
  case (Suc n)
  let ?w = "int (1000 * k)"
  let ?s = "s\<lparr>valuesToRecalculate :=
                 valuesToRecalculate s @ (if args = [] then [] else [(org s, first_arg args)]),
               memory := written (memory s) (org s) [?w], org := Suc (org s)\<rparr>"
  have "emitExpression expressions (index + 1) s = Inr (index + 1 + 1, ?s)"
    using assms(1,2) Suc.prems by (rule emitExpression_instruction)
  then have step: "timesLoop expressions index (Suc n) s = timesLoop expressions index n ?s"
    by simp
  have fits: "org ?s \<le> length (memory ?s)"
    using Suc.prems by (simp add: length_written)
  have shifted: "map (\<lambda>j. (org s + j, first_arg args)) [0..<Suc n]
      = (org s, first_arg args) # map (\<lambda>j. (Suc (org s) + j, first_arg args)) [0..<n]"
    by (simp add: upt_conv_Cons map_Suc_upt [symmetric] del: upt_Suc)
  have cells: "written (written (memory s) (org s) [?w]) (Suc (org s)) (replicate n ?w)
      = written (memory s) (org s) (replicate (Suc n) ?w)"
    using written_written [of "org s" "memory s" "[?w]" "replicate n ?w"] Suc.prems by simp
  show ?case
    unfolding step Suc.IH [OF fits]
    using shifted cells by (simp del: upt_Suc replicate_Suc)
qed

lemma times_then_instruction:
  assumes "index + 1 < length expressions"
    and "expressions ! index = E_DIRECTIVE D_TIMES [[T_NUMBER n]]"
    and "expressions ! (index + 1) = E_INSTRUCTION k args"
    and "org s \<le> length (memory s)"
  shows "emitExpression expressions index s
         = Inr (index + 2,
                s\<lparr>valuesToRecalculate :=
                     valuesToRecalculate s
                     @ (if args = [] then []
                        else map (\<lambda>j. (org s + j, first_arg args)) [0..<n]),
                   memory := written (memory s) (org s) (replicate n (int (1000 * k))),
                   org := org s + n\<rparr>)"
  using assms(1,2)
  by (subst emitExpression.simps)
     (simp add: timesLoop_instruction [OF assms(1,3,4)] D_TIMES_def D_ORG_def
        tokenStreamAsNumber_def first_arg_def)

lemma timesLoop_line_marker:
  assumes "index + 1 < length expressions" and "expressions ! (index + 1) = E_LINENUM l"
  shows "timesLoop expressions index n s = Inr (if n = 0 then s else s\<lparr>lineNumber := l\<rparr>)"
proof (induction n arbitrary: s)
  case 0
  then show ?case by simp
next
  case (Suc n)
  have "emitExpression expressions (index + 1) s = Inr (index + 1 + 1, s\<lparr>lineNumber := l\<rparr>)"
    using assms by (subst emitExpression.simps) simp
  then have "timesLoop expressions index (Suc n) s
      = timesLoop expressions index n (s\<lparr>lineNumber := l\<rparr>)"
    by simp
  then show ?case
    by (simp add: Suc.IH)
qed

lemma times_then_line_marker:
  assumes "index + 1 < length expressions"
    and "expressions ! index = E_DIRECTIVE D_TIMES [[T_NUMBER n]]"
    and "expressions ! (index + 1) = E_LINENUM l"
  shows "emitExpression expressions index s
         = Inr (index + 2, if n = 0 then s else s\<lparr>lineNumber := l\<rparr>)"
  using assms(1,2)
  by (subst emitExpression.simps)
     (simp add: timesLoop_line_marker [OF assms(1,3)] D_TIMES_def D_ORG_def
        tokenStreamAsNumber_def first_arg_def)

text \<open>
  The parser never returns such a sequence: \<^verbatim>\<open>collectCommaSeparated\<close> takes every token
  up to the next line marker into the arguments and leaves the line marker, which
  becomes the next expression. So after the parser a \<^verbatim>\<open>#TIMES\<close> directive with a
  literal count repeats a line marker and changes nothing but the line number.
\<close>

lemma collectCommaSeparated_loop_stops:
  "collectCommaSeparated_loop ts buffer out = Inr (b, out', rest) \<Longrightarrow> starts_with_line_marker rest"
proof (induction ts arbitrary: buffer out)
  case Nil
  then show ?case by simp
next
  case (Cons t ts)
  then show ?case
    by (cases t) (auto split: if_splits)
qed

lemma collectCommaSeparated_stops:
  "collectCommaSeparated name count ts = Inr (args, rest) \<Longrightarrow> starts_with_line_marker rest"
  by (auto simp: collectCommaSeparated_def Let_def split: sum.splits if_splits
           dest: collectCommaSeparated_loop_stops)

lemma parser_loop_accumulates:
  "parser_loop ts l out =
     (case parser_loop ts l [] of Inl e \<Rightarrow> Inl e | Inr es \<Rightarrow> Inr (out @ es))"
proof (induction "length ts" arbitrary: ts l out rule: less_induct)
  case less
  show ?case
  proof (cases ts)
    case Nil
    then show ?thesis by simp
  next
    case (Cons t ts')
    have IH: "parser_loop rest l' out' =
        (case parser_loop rest l' [] of Inl e \<Rightarrow> Inl e | Inr es \<Rightarrow> Inr (out' @ es))"
      if "length rest \<le> length ts'" for rest l' out'
      using less [of rest l' out'] that Cons by simp
    show ?thesis
    proof (cases t)
      case (T_LINENUM n)
      show ?thesis
        unfolding Cons T_LINENUM parser_loop.simps(2) token.case
        by (subst IH, simp, subst (2) IH, simp) (simp split: sum.splits)
    next
      case (T_IDENT x)
      show ?thesis
      proof (cases ts')
        case Nil
        then show ?thesis
          by (simp add: Cons T_IDENT parser_loop.simps(2))
      next
        case (Cons t' ts'')
        show ?thesis
          unfolding \<open>ts = t # ts'\<close> Cons T_IDENT parser_loop.simps(2) token.case list.case
          using IH [of ts'' l "out @ [E_LABEL x]"] IH [of ts'' l "[E_LABEL x]"] Cons
          by (simp split: sum.splits)
      qed
    next
      case (T_DIRECTIVE d)
      show ?thesis
        unfolding Cons T_DIRECTIVE parser_loop.simps(2) token.case
        by (auto split: sum.splits
              simp: IH [OF collectCommaSeparated_length, of _ _ _ _  _ "out @ _"]
                    IH [OF collectCommaSeparated_length, of _ _ _ _ _ "[_]"])
    next
      case (T_INSTRUCTION k)
      show ?thesis
        unfolding Cons T_INSTRUCTION parser_loop.simps(2) token.case
        by (auto split: sum.splits
              simp: IH [OF collectCommaSeparated_length, of _ _ _ _  _ "out @ _"]
                    IH [OF collectCommaSeparated_length, of _ _ _ _ _ "[_]"])
    qed (simp_all add: Cons parser_loop.simps(2))
  qed
qed

lemma lines_closed_Cons:
  "\<not> takes_arguments e \<Longrightarrow> lines_closed (e # es) = lines_closed es"
  by (cases es) simp_all

lemma lines_closed_arguments:
  "takes_arguments e \<Longrightarrow> lines_closed (e # E_LINENUM n # es) = lines_closed (E_LINENUM n # es)"
  by simp

lemma parser_loop_line_marker:
  "parser_loop (T_LINENUM n # ts) l [] =
     (case parser_loop ts n [] of Inl e \<Rightarrow> Inl e | Inr es \<Rightarrow> Inr (E_LINENUM n # es))"
  by (subst parser_loop.simps(2))
     (simp add: parser_loop_accumulates [of _ _ "[E_LINENUM n]"] split: sum.splits)

lemma parser_loop_label:
  "parser_loop (T_IDENT x # T_LABEL_MAKER # ts) l [] =
     (case parser_loop ts l [] of Inl e \<Rightarrow> Inl e | Inr es \<Rightarrow> Inr (E_LABEL x # es))"
  by (subst parser_loop.simps(2))
     (simp add: parser_loop_accumulates [of _ _ "[E_LABEL x]"] split: sum.splits)

lemma parser_loop_label_only:
  assumes "parser_loop (T_IDENT x # ts) l [] = Inr es"
  shows "\<exists>ts'. ts = T_LABEL_MAKER # ts'"
proof (cases ts)
  case Nil
  with assms show ?thesis
    by (simp add: parser_loop.simps(2))
next
  case (Cons t ts')
  with assms show ?thesis
    by (cases t) (simp_all add: parser_loop.simps(2))
qed

lemma parser_loop_directive:
  "parser_loop (T_DIRECTIVE d # ts) l [] =
     (case collectCommaSeparated (''Directive '' @ table_name COMPILER_DIRECTIVES d)
             (nth_opt DIRECTIVE_ARG_LENGTHS d) ts of
        Inl e \<Rightarrow> Inl (ParsingLine l e)
      | Inr (args, rest) \<Rightarrow>
          (case parser_loop rest l [] of
             Inl e \<Rightarrow> Inl e
           | Inr es \<Rightarrow> Inr (E_DIRECTIVE d args # es)))"
  by (subst parser_loop.simps(2))
     (simp add: parser_loop_accumulates [of _ _ "[E_DIRECTIVE d _]"] split: sum.splits)

lemma parser_loop_instruction:
  "parser_loop (T_INSTRUCTION k # ts) l [] =
     (case collectCommaSeparated (''Instruction '' @ table_name INSTRUCTIONS k)
             (nth_opt INSTRUCTION_ARG_LENGTHS k) ts of
        Inl e \<Rightarrow> Inl (ParsingLine l e)
      | Inr (args, rest) \<Rightarrow>
          (case parser_loop rest l [] of
             Inl e \<Rightarrow> Inl e
           | Inr es \<Rightarrow> Inr (E_INSTRUCTION k args # es)))"
  by (subst parser_loop.simps(2))
     (simp add: parser_loop_accumulates [of _ _ "[E_INSTRUCTION k _]"] split: sum.splits)

lemma parser_loop_lines_closed:
  "parser_loop ts l [] = Inr es \<Longrightarrow> lines_closed es"
proof (induction "length ts" arbitrary: ts l es rule: less_induct)
  case less
  show ?case
  proof (cases ts)
    case Nil
    with less.prems show ?thesis by simp
  next
    case (Cons t ts')
    have IH: "lines_closed es'"
      if "parser_loop rest l' [] = Inr es'" and "length rest \<le> length ts'" for rest l' es'
      using less.hyps [of rest l' es'] that Cons by simp
    have after_arguments: "lines_closed (e # es')"
      if "takes_arguments e" and "parser_loop rest l [] = Inr es'"
        and "starts_with_line_marker rest" and "length rest \<le> length ts'" for e rest es'
    proof -
      from that(3) obtain n rest' where rest: "rest = T_LINENUM n # rest'"
        by (cases rest rule: starts_with_line_marker.cases) simp_all
      from that(2) obtain es'' where "es' = E_LINENUM n # es''"
        unfolding rest parser_loop_line_marker by (auto split: sum.splits)
      with IH [OF that(2,4)] that(1) show ?thesis
        by simp
    qed
    show ?thesis
    proof (cases t)
      case (T_LINENUM n)
      from less.prems obtain es' where
        "es = E_LINENUM n # es'" "parser_loop ts' n [] = Inr es'"
        unfolding Cons T_LINENUM parser_loop_line_marker by (auto split: sum.splits)
      with IH [of ts' n es'] show ?thesis
        by (simp add: lines_closed_Cons)
    next
      case (T_IDENT x)
      from less.prems obtain ts'' where ts': "ts' = T_LABEL_MAKER # ts''"
        unfolding Cons T_IDENT by (auto dest: parser_loop_label_only)
      from less.prems obtain es' where
        "es = E_LABEL x # es'" "parser_loop ts'' l [] = Inr es'"
        unfolding Cons T_IDENT ts' parser_loop_label by (auto split: sum.splits)
      with IH [of ts'' l es'] ts' show ?thesis
        by (simp add: lines_closed_Cons)
    next
      case (T_DIRECTIVE d)
      from less.prems obtain name count args rest es' where
        "collectCommaSeparated name count ts' = Inr (args, rest)"
        "es = E_DIRECTIVE d args # es'" "parser_loop rest l [] = Inr es'"
        unfolding Cons T_DIRECTIVE parser_loop_directive by (auto split: sum.splits)
      then show ?thesis
        using after_arguments [of "E_DIRECTIVE d args" rest es']
        by (simp add: collectCommaSeparated_stops collectCommaSeparated_length)
    next
      case (T_INSTRUCTION k)
      from less.prems obtain name count args rest es' where
        "collectCommaSeparated name count ts' = Inr (args, rest)"
        "es = E_INSTRUCTION k args # es'" "parser_loop rest l [] = Inr es'"
        unfolding Cons T_INSTRUCTION parser_loop_instruction by (auto split: sum.splits)
      then show ?thesis
        using after_arguments [of "E_INSTRUCTION k args" rest es']
        by (simp add: collectCommaSeparated_stops collectCommaSeparated_length)
    next
      case (T_NUMBER n)
      with less.prems Cons show ?thesis by (simp add: parser_loop.simps(2))
    next
      case (T_ARITH_SYMBOL c)
      with less.prems Cons show ?thesis by (simp add: parser_loop.simps(2))
    next
      case T_LABEL_MAKER
      with less.prems Cons show ?thesis by (simp add: parser_loop.simps(2))
    next
      case T_COMMA
      with less.prems Cons show ?thesis by (simp add: parser_loop.simps(2))
    qed
  qed
qed

lemma lines_closed_nth:
  "lines_closed es \<Longrightarrow> i < length es \<Longrightarrow> takes_arguments (es ! i) \<Longrightarrow>
   Suc i < length es \<and> is_line_marker (es ! Suc i)"
proof (induction es arbitrary: i rule: lines_closed.induct)
  case 1
  then show ?case by simp
next
  case (2 e)
  then show ?case by simp
next
  case (3 e e' es)
  then show ?case
    by (cases i) (auto split: if_splits)
qed

lemma times_after_parser:
  assumes "parser tokens = Inr expressions" and "index < length expressions"
    and "expressions ! index = E_DIRECTIVE D_TIMES [[T_NUMBER n]]"
  shows "\<exists>l. emitExpression expressions index s
              = Inr (index + 2, if n = 0 then s else s\<lparr>lineNumber := l\<rparr>)"
proof -
  from assms(1) have "lines_closed expressions"
    by (simp add: parser_def parser_loop_lines_closed)
  with assms(2,3) have "Suc index < length expressions"
    and "is_line_marker (expressions ! Suc index)"
    using lines_closed_nth [of expressions index] by simp_all
  then obtain l where "index + 1 < length expressions" "expressions ! (index + 1) = E_LINENUM l"
    by (cases "expressions ! Suc index") simp_all
  then show ?thesis
    using times_then_line_marker [OF _ assms(3)] by blast
qed

text \<open>
  C1. A \<^verbatim>\<open>#TIMES\<close> line with count \<open>N\<close> followed by an instruction should write \<open>N\<close>
  copies of the instruction's word and advance the origin by \<open>N\<close>. On the source text
  \<^verbatim>\<open>#TIMES 3\<close>, newline, \<^verbatim>\<open>HLT\<close> the parser puts the line marker of line 2 between
  the directive and the instruction; the directive repeats that line marker three times
  and the instruction is then written once: cell 0 holds the word of \<^verbatim>\<open>HLT\<close> and
  cells 1 and 2 stay zero.
\<close>

theorem times_repeats_the_line_marker:
  "assemble_text bare_host (''#TIMES 3'' @ [newline] @ ''HLT'')
     = Some (Returns ((replicate 1000 0)[0 := 10000]))"
proof -
  have lexed: "lexer (''#TIMES 3'' @ [newline] @ ''HLT'')
      = Some (Inr [T_LINENUM 1, T_DIRECTIVE 1, T_NUMBER 3, T_LINENUM 2, T_INSTRUCTION 10,
                   T_LINENUM 3])"
    by code_simp
  have parsed: "parser [T_LINENUM 1, T_DIRECTIVE 1, T_NUMBER 3, T_LINENUM 2, T_INSTRUCTION 10,
                        T_LINENUM 3]
      = Inr [E_LINENUM 1, E_DIRECTIVE 1 [[T_NUMBER 3]], E_LINENUM 2, E_INSTRUCTION 10 [],
             E_LINENUM 3]"
    by code_simp
  have "assembler bare_host [E_LINENUM 1, E_DIRECTIVE 1 [[T_NUMBER 3]], E_LINENUM 2,
                             E_INSTRUCTION 10 [], E_LINENUM 3]
      = Returns ((replicate 1000 0)[0 := 10000])"
    by (simp add: pass1_defs numeral_3_eq_3)
  then show ?thesis
    by (rule assemble_textI [OF lexed parsed])
qed

subsection \<open>The capacity of the memory\<close>

text \<open>
  C2. A write at or past index 1000 should fail with the capacity error. The guard of
  \<^verbatim>\<open>emit\<close> lets a cursor equal to the length of the array through: on the text
  \<^verbatim>\<open>#ORG 1000\<close>, newline, \<^verbatim>\<open>HLT\<close> the word of \<^verbatim>\<open>HLT\<close> is written at index 1000 and
  the assembly succeeds.
\<close>

theorem write_at_index_1000:
  "assemble_text bare_host (''#ORG 1000'' @ [newline] @ ''HLT'')
     = Some (Returns (replicate 1000 0 @ [10000]))"
proof -
  have lexed: "lexer (''#ORG 1000'' @ [newline] @ ''HLT'')
      = Some (Inr [T_LINENUM 1, T_DIRECTIVE 0, T_NUMBER 1000, T_LINENUM 2, T_INSTRUCTION 10,
                   T_LINENUM 3])"
    by code_simp
  have parsed: "parser [T_LINENUM 1, T_DIRECTIVE 0, T_NUMBER 1000, T_LINENUM 2,
                        T_INSTRUCTION 10, T_LINENUM 3]
      = Inr [E_LINENUM 1, E_DIRECTIVE 0 [[T_NUMBER 1000]], E_LINENUM 2, E_INSTRUCTION 10 [],
             E_LINENUM 3]"
    by code_simp
  have "assembler bare_host [E_LINENUM 1, E_DIRECTIVE 0 [[T_NUMBER 1000]], E_LINENUM 2,
                             E_INSTRUCTION 10 [], E_LINENUM 3]
      = Returns (replicate 1000 0 @ [10000])"
    by (simp add: pass1_defs)
  then show ?thesis
    by (rule assemble_textI [OF lexed parsed])
qed

text \<open>
  C4. The returned image should have exactly 1000 cells. A program that sets the origin
  to 999 and then has two instructions returns an image of 1001 cells.
\<close>

theorem image_of_1001_cells:
  "assemble_text bare_host (''#ORG 999'' @ [newline] @ ''HLT'' @ [newline] @ ''HLT'')
     = Some (Returns ((replicate 1000 0)[999 := 10000] @ [10000]))
   \<and> length ((replicate 1000 (0::int))[999 := 10000] @ [10000]) = 1001"
proof -
  have lexed: "lexer (''#ORG 999'' @ [newline] @ ''HLT'' @ [newline] @ ''HLT'')
      = Some (Inr [T_LINENUM 1, T_DIRECTIVE 0, T_NUMBER 999, T_LINENUM 2, T_INSTRUCTION 10,
                   T_LINENUM 3, T_INSTRUCTION 10, T_LINENUM 4])"
    by code_simp
  have parsed: "parser [T_LINENUM 1, T_DIRECTIVE 0, T_NUMBER 999, T_LINENUM 2,
                        T_INSTRUCTION 10, T_LINENUM 3, T_INSTRUCTION 10, T_LINENUM 4]
      = Inr [E_LINENUM 1, E_DIRECTIVE 0 [[T_NUMBER 999]], E_LINENUM 2, E_INSTRUCTION 10 [],
             E_LINENUM 3, E_INSTRUCTION 10 [], E_LINENUM 4]"
    by code_simp
  have "assembler bare_host [E_LINENUM 1, E_DIRECTIVE 0 [[T_NUMBER 999]], E_LINENUM 2,
                             E_INSTRUCTION 10 [], E_LINENUM 3, E_INSTRUCTION 10 [], E_LINENUM 4]
      = Returns ((replicate 1000 0)[999 := 10000] @ [10000])"
    by (simp add: pass1_defs)
  then have "assemble_text bare_host (''#ORG 999'' @ [newline] @ ''HLT'' @ [newline] @ ''HLT'')
      = Some (Returns ((replicate 1000 0)[999 := 10000] @ [10000]))"
    by (rule assemble_textI [OF lexed parsed])
  then show ?thesis
    by simp
qed

subsection \<open>Upper and lower case\<close>

text \<open>
  \<^verbatim>\<open>runAssembly\<close> upper-cases the whole text before it calls the lexer, so on that path
  the case of the text makes no difference.
\<close>

lemma toUpperCase_idempotent: "toUpperCase (toUpperCase c) = toUpperCase c"
proof -
  have "(of_char (char_of (of_char c - 32 :: nat)) :: nat) = of_char c - 32"
    if "97 \<le> (of_char c :: nat)" "(of_char c :: nat) \<le> 122"
    using that by simp
  then show ?thesis
    by (auto simp: toUpperCase_def Let_def)
qed

lemma runAssembly_ignores_case:
  "runAssembly host (map toUpperCase textContents) = runAssembly host textContents"
proof -
  have "map toUpperCase (map toUpperCase textContents) = map toUpperCase textContents"
    by (induction textContents) (simp_all add: toUpperCase_idempotent)
  then show ?thesis
    by (simp only: runAssembly_def)
qed

text \<open>
  C3. Lexing a text should give the same tokens as lexing its upper-cased form. Only
  the character read by \<^verbatim>\<open>next()\<close> is upper-cased; \<^verbatim>\<open>collectWhile\<close> tests the raw
  characters. So \<^verbatim>\<open>take\<close> is lexed as the four identifiers \<^verbatim>\<open>T\<close>, \<^verbatim>\<open>A\<close>, \<^verbatim>\<open>K\<close>,
  \<^verbatim>\<open>E\<close>, and \<^verbatim>\<open>TAKE\<close> as the mnemonic number 1.
\<close>

theorem lexer_depends_on_case:
  "lexer ''take''
     = Some (Inr [T_LINENUM 1, T_IDENT ''T'', T_IDENT ''A'', T_IDENT ''K'', T_IDENT ''E'',
                  T_LINENUM 2])
   \<and> lexer (map toUpperCase ''take'') = Some (Inr [T_LINENUM 1, T_INSTRUCTION 1, T_LINENUM 2])"
  by code_simp

subsection \<open>Errors of the relocation pass\<close>

text \<open>
  Which errors the relocation pass can raise: those of the evaluation, as they are. None
  of them carries a line number.
\<close>

lemma source_text_throws: "source_text ts = Throws e \<Longrightarrow> e = TypeError"
  by (simp add: source_text_def split: if_splits)

lemma js_parse_throws: "js_parse toks expect_operand ops operands = Throws e \<Longrightarrow> e = SyntaxError"
  by (induction toks expect_operand ops operands rule: js_parse.induct)
     (auto split: if_splits option.splits list.splits jstoken.splits stack_op.splits prod.splits)

lemma js_number_throws: "js_number n \<noteq> Throws e"
  by (simp add: js_number_def)

lemma unary_arith_throws: "unary_arith f a = Throws e \<Longrightarrow> a = Throws e"
  by (auto simp: unary_arith_def js_number_throws split: outcome.splits jsvalue.splits)

lemma binary_arith_throws: "binary_arith f a b = Throws e \<Longrightarrow> a = Throws e \<or> b = Throws e"
  by (auto simp: binary_arith_def js_number_throws split: outcome.splits jsvalue.splits)

lemma resolve_throws:
  "resolve host lbls x = Throws e \<Longrightarrow> e = ReferenceError x \<and> unbound host lbls x"
  by (auto simp: resolve_def unbound_def js_number_throws split: option.splits if_splits)

lemma js_value_throws:
  "js_value host lbls ex = Throws e \<Longrightarrow>
   \<exists>x. e = ReferenceError x \<and> x \<in> identifiers ex \<and> unbound host lbls x"
  by (induction ex)
     (auto simp: js_number_throws dest!: unary_arith_throws binary_arith_throws resolve_throws)

lemma js_eval_throws:
  "js_eval host lbls src = Throws e \<Longrightarrow> e = SyntaxError \<or> (\<exists>x. e = ReferenceError x)"
  by (auto simp: js_eval_def split: if_splits option.splits outcome.splits
           dest: js_parse_throws js_value_throws)

lemma relocate_throws:
  "relocate host lbls entries mem = Throws e \<Longrightarrow>
   e = TypeError \<or> e = SyntaxError \<or> (\<exists>x. e = ReferenceError x)"
proof (induction entries arbitrary: mem)
  case Nil
  then show ?case by simp
next
  case (Cons entry entries)
  obtain address v where entry: "entry = (address, v)"
    by (cases entry)
  from Cons.prems Cons.IH show ?case
    unfolding entry
    by (auto split: option.splits outcome.splits if_splits
             dest: source_text_throws js_eval_throws)
qed

lemma relocation_errors_are_bare:
  "assembler_loop expressions 0 initial_state = Inr s \<Longrightarrow>
   assembler host expressions \<noteq> Throws (AssemblingLine l e)"
  by (auto simp: assembler_def dest: relocate_throws)

text \<open>
  C7. An error of the relocation pass should be reported wrapped with a line number.
  An unresolved symbol leaves \<^verbatim>\<open>assembler\<close> as the bare \<^verbatim>\<open>ReferenceError\<close>, whereas
  an error of the first pass (here the capacity error, after \<^verbatim>\<open>#ORG 1001\<close>) is wrapped
  with the line on which it occurred.
\<close>

theorem relocation_error_is_not_wrapped:
  "assemble_text bare_host ''JMP NOWHERE'' = Some (Throws (ReferenceError ''NOWHERE''))
   \<and> assemble_text bare_host (''#ORG 1001'' @ [newline] @ ''HLT'')
       = Some (Throws (AssemblingLine 2 EmittingOutsideOfMemory))"
proof -
  have lexed: "lexer ''JMP NOWHERE''
      = Some (Inr [T_LINENUM 1, T_INSTRUCTION 5, T_IDENT ''NOWHERE'', T_LINENUM 2])"
    by code_simp
  have parsed: "parser [T_LINENUM 1, T_INSTRUCTION 5, T_IDENT ''NOWHERE'', T_LINENUM 2]
      = Inr [E_LINENUM 1, E_INSTRUCTION 5 [[T_IDENT ''NOWHERE'']], E_LINENUM 2]"
    by code_simp
  have joined: "source_text [T_IDENT ''NOWHERE''] = Returns ''NOWHERE''"
    by code_simp
  have evaluated: "js_eval bare_host Map.empty ''NOWHERE'' = Throws (ReferenceError ''NOWHERE'')"
    by code_simp
  have "assembler bare_host [E_LINENUM 1, E_INSTRUCTION 5 [[T_IDENT ''NOWHERE'']], E_LINENUM 2]
      = Throws (ReferenceError ''NOWHERE'')"
    by (simp add: pass1_defs joined evaluated)
  then have relocation: "assemble_text bare_host ''JMP NOWHERE''
      = Some (Throws (ReferenceError ''NOWHERE''))"
    by (rule assemble_textI [OF lexed parsed])
  have lexed': "lexer (''#ORG 1001'' @ [newline] @ ''HLT'')
      = Some (Inr [T_LINENUM 1, T_DIRECTIVE 0, T_NUMBER 1001, T_LINENUM 2, T_INSTRUCTION 10,
                   T_LINENUM 3])"
    by code_simp
  have parsed': "parser [T_LINENUM 1, T_DIRECTIVE 0, T_NUMBER 1001, T_LINENUM 2,
                         T_INSTRUCTION 10, T_LINENUM 3]
      = Inr [E_LINENUM 1, E_DIRECTIVE 0 [[T_NUMBER 1001]], E_LINENUM 2, E_INSTRUCTION 10 [],
             E_LINENUM 3]"
    by code_simp
  have "assembler bare_host [E_LINENUM 1, E_DIRECTIVE 0 [[T_NUMBER 1001]], E_LINENUM 2,
                             E_INSTRUCTION 10 [], E_LINENUM 3]
      = Throws (AssemblingLine 2 EmittingOutsideOfMemory)"
    by (simp add: pass1_defs)
  then have first_pass: "assemble_text bare_host (''#ORG 1001'' @ [newline] @ ''HLT'')
      = Some (Throws (AssemblingLine 2 EmittingOutsideOfMemory))"
    by (rule assemble_textI [OF lexed' parsed'])
  from relocation first_pass show ?thesis
    by (rule conjI)
qed

subsection \<open>Packing the operand into the word\<close>

text \<open>
  C8. For an opcode \<open>k \<ge> 1\<close> and an operand \<open>v < 1000\<close> the relocated word should be
  \<open>k * 1000 + v\<close>. The relocation pass combines the two with a bitwise or, and 1000
  and 8 share a bit: \<^verbatim>\<open>TAKE 8\<close> assembles to 1000, the word of \<^verbatim>\<open>TAKE 0\<close>, not to
  1008.
\<close>

theorem take_8_assembles_to_1000:
  "assemble_text bare_host ''TAKE 8'' = Some (Returns ((replicate 1000 0)[0 := 1000]))
   \<and> bitwise_or (1000 * 1) 8 = 1000"
proof -
  have lexed: "lexer ''TAKE 8''
      = Some (Inr [T_LINENUM 1, T_INSTRUCTION 1, T_NUMBER 8, T_LINENUM 2])"
    by code_simp
  have parsed: "parser [T_LINENUM 1, T_INSTRUCTION 1, T_NUMBER 8, T_LINENUM 2]
      = Inr [E_LINENUM 1, E_INSTRUCTION 1 [[T_NUMBER 8]], E_LINENUM 2]"
    by code_simp
  have joined: "source_text [T_NUMBER 8] = Returns ''8''"
    by code_simp
  have evaluated: "js_eval bare_host Map.empty ''8'' = Returns (JNumber 8)"
    by code_simp
  have word: "bitwise_or 1000 8 = 1000"
    by (simp add: bitwise_or_def)
  have "assembler bare_host [E_LINENUM 1, E_INSTRUCTION 1 [[T_NUMBER 8]], E_LINENUM 2]
      = Returns ((replicate 1000 0)[0 := 1000])"
    by (simp add: pass1_defs joined evaluated word value_to_int32_def ToInt32_def)
  then have "assemble_text bare_host ''TAKE 8'' = Some (Returns ((replicate 1000 0)[0 := 1000]))"
    by (rule assemble_textI [OF lexed parsed])
  with word show ?thesis
    by simp
qed

subsection \<open>Identifiers that the label table does not hold\<close>

text \<open>
  An expression of the fragment in which an unbound identifier occurs has no value.
\<close>

lemma unary_arith_returns: "unary_arith f a = Returns v \<Longrightarrow> \<exists>u. a = Returns u"
  by (auto simp: unary_arith_def split: outcome.splits)

lemma binary_arith_returns:
  "binary_arith f a b = Returns v \<Longrightarrow> (\<exists>u. a = Returns u) \<and> (\<exists>w. b = Returns w)"
  by (auto simp: binary_arith_def split: outcome.splits)

lemma resolve_unbound: "unbound host lbls x \<Longrightarrow> resolve host lbls x = Throws (ReferenceError x)"
  by (simp add: resolve_def unbound_def)

lemma unbound_identifier_never_evaluates:
  "x \<in> identifiers ex \<Longrightarrow> unbound host lbls x \<Longrightarrow> js_value host lbls ex \<noteq> Returns v"
  by (induction ex arbitrary: v)
     (auto simp: resolve_unbound dest!: unary_arith_returns binary_arith_returns)




subsection \<open>Texts without any instruction\<close>

lemma lexer_loop_space: "lexer_loop (CHR '' '' # cs) ln out = lexer_loop cs ln out"
  by (simp add: lexer_loop.simps(2) toUpperCase_def)

lemma lexer_loop_spaces:
  "lexer_loop (replicate n (CHR '' '') @ rest) ln out = lexer_loop rest ln out"
  by (induction n) (simp_all add: lexer_loop_space)

lemma lexer_loop_newline:
  "lexer_loop (newline # cs) ln out = lexer_loop cs (ln + 1) (out @ [T_LINENUM (ln + 1)])"
  by (simp add: lexer_loop.simps(2) toUpperCase_def newline_def)

lemma collectWhile_comment:
  "collectWhile (\<lambda>e. e \<noteq> [newline]) (cs @ [newline])
     = Some (takeWhile (\<lambda>d. d \<noteq> newline) cs, dropWhile (\<lambda>d. d \<noteq> newline) cs @ [newline])"
  by (induction cs) auto

lemma lexer_loop_comment:
  "lexer_loop (CHR '';'' # cs @ [newline]) ln out
     = lexer_loop (dropWhile (\<lambda>d. d \<noteq> newline) cs @ [newline]) ln out"
  by (simp add: lexer_loop.simps(2) toUpperCase_def newline_def NUMBERS_def SYMBOLS_def
        isLetter_def collectWhile_comment [unfolded newline_def])

lemma lexer_loop_blank:
  "blank_text cs \<Longrightarrow>
   \<exists>lines. lexer_loop (cs @ [newline]) ln out = Some (Inr (out @ map T_LINENUM lines))"
proof (induction cs arbitrary: ln out rule: blank_text.induct)
  case 1
  have "lexer_loop [newline] ln out = Some (Inr (out @ map T_LINENUM [ln + 1]))"
    by (simp add: lexer_loop_newline)
  then show ?case
    by (metis append_Nil)
next
  case (2 c cs)
  consider (space) "c = CHR '' ''" | (line) "c = newline" | (comment) "c = CHR '';''"
    using "2.prems" by (auto split: if_splits)
  then show ?case
  proof cases
    case space
    with 2 show ?thesis
      by (simp add: lexer_loop_space)
  next
    case line
    with "2.prems" have "blank_text cs" by simp
    with line "2.IH"(1) [of "ln + 1" "out @ [T_LINENUM (ln + 1)]"]
    obtain lines where "lexer_loop (cs @ [newline]) (ln + 1) (out @ [T_LINENUM (ln + 1)])
        = Some (Inr ((out @ [T_LINENUM (ln + 1)]) @ map T_LINENUM lines))"
      by auto
    then have "lexer_loop ((c # cs) @ [newline]) ln out
        = Some (Inr (out @ map T_LINENUM ((ln + 1) # lines)))"
      by (simp add: line lexer_loop_newline)
    then show ?thesis
      by blast
  next
    case comment
    then have "c \<noteq> CHR '' ''" "c \<noteq> newline"
      by (simp_all add: newline_def)
    with comment 2 show ?thesis
      by (simp add: lexer_loop_comment)
  qed
qed

lemma parser_loop_line_markers:
  "parser_loop (map T_LINENUM lines) l out = Inr (out @ map E_LINENUM lines)"
  by (induction lines arbitrary: l out) (simp_all add: parser_loop.simps(2))

lemma plain_line_markers: "list_all plain (map E_LINENUM lines)"
  by (induction lines) simp_all

lemma emitted_words_line_markers: "emitted_words (map E_LINENUM lines) = []"
  by (induction lines) simp_all

lemma assembler_line_markers: "assembler host (map E_LINENUM lines) = Returns (replicate 1000 0)"
proof -
  have "assembler_loop (map E_LINENUM lines) 0 initial_state
      = assembler_loop (map E_LINENUM lines) (length lines)
          (initial_state\<lparr>lineNumber := last_line (- 1) (map E_LINENUM lines)\<rparr>)"
    using walk_plain [of "map E_LINENUM lines" initial_state "[]" "[]"]
    by (simp add: plain_line_markers emitted_words_line_markers written_Nil initial_state_def)
  also have "\<dots> = Inr (initial_state\<lparr>lineNumber := last_line (- 1) (map E_LINENUM lines)\<rparr>)"
    by (subst assembler_loop.simps) simp
  finally show ?thesis
    by (simp add: assembler_def initial_state_def)
qed

text \<open>
  C10, as stated: a text of whitespace, newlines and comments assembles to 1000 zero
  cells. The lexer skips the space character only; a tab is an unexpected symbol.
\<close>

theorem tab_is_rejected:
  "assemble_text bare_host [CHR 0x09] = Some (Throws (UnexpectedSymbol (CHR 0x09) 1))"
proof -
  have "lexer [CHR 0x09] = Some (Inl (UnexpectedSymbol (CHR 0x09) 1))"
    by code_simp
  then show ?thesis
    by (simp add: assemble_text_def)
qed

text \<open>
  C10, amended. Every text that consists of space characters, newlines and comments
  only (the empty text among them) assembles, and the image is 1000 cells that are all
  zero.
\<close>

theorem blank_text_assembles_to_zeros:
  "blank_text text \<Longrightarrow> assemble_text host text = Some (Returns (replicate 1000 0))"
proof -
  assume "blank_text text"
  then obtain lines where
    "lexer_loop (text @ [newline]) 1 [T_LINENUM 1] = Some (Inr ([T_LINENUM 1] @ map T_LINENUM lines))"
    using lexer_loop_blank by blast
  then have lexed: "lexer text = Some (Inr (map T_LINENUM (1 # lines)))"
    by (simp add: lexer_def)
  have parsed: "parser (map T_LINENUM (1 # lines)) = Inr (map E_LINENUM (1 # lines))"
    using parser_loop_line_markers [of "1 # lines" "- 1" "[]"] by (simp add: parser_def)
  show ?thesis
    by (rule assemble_textI [OF lexed parsed assembler_line_markers])
qed

theorem blank_text_assembles_to_zeros_witness:
  "blank_text (''  '' @ [newline] @ ''; a comment'' @ [newline, newline] @ '' ;'')
   \<and> assemble_text bare_host (''  '' @ [newline] @ ''; a comment'' @ [newline, newline] @ '' ;'')
       = Some (Returns (replicate 1000 0))"
proof -
  have blank: "blank_text (''  '' @ [newline] @ ''; a comment'' @ [newline, newline] @ '' ;'')"
    by (simp add: newline_def)
  from blank blank_text_assembles_to_zeros [OF blank] show ?thesis
    by (rule conjI)
qed

subsection \<open>Forward references\<close>



subsection \<open>A label and an instruction that refers to it\<close>

lemma toUpperCase_capital: "is_capital c \<Longrightarrow> toUpperCase c = c"
  by (simp add: is_capital_iff toUpperCase_def)

lemma is_name_char_iff: "is_name_char c \<longleftrightarrow> isLetterOrNumber [c]"
  by (simp add: is_name_char_def isLetterOrNumber_def is_capital_def is_digit_def)

lemma collectWhile_name:
  "list_all is_name_char cs \<Longrightarrow> \<not> isLetterOrNumber [d] \<Longrightarrow>
   collectWhile isLetterOrNumber (cs @ d # rest) = Some (cs, d # rest)"
  by (induction cs) (simp_all add: is_name_char_iff)

lemma capital_facts:
  assumes "is_capital c"
  shows "c \<noteq> CHR '' ''" "c \<noteq> newline" "\<not> includesStr NUMBERS [c]"
    "\<not> includesStr SYMBOLS [c]" "isLetter [c]"
  using assms capital_not_digit [OF assms]
  by (auto simp: is_capital_iff is_digit_def newline_def SYMBOLS_def isLetter_def)

lemma lexer_loop_word:
  assumes "is_identifier w" and "\<not> isLetterOrNumber [d]"
  shows "lexer_loop (w @ d # rest) ln out
         = lexer_loop (d # rest) ln
             (out @ [case indexOf INSTRUCTIONS w of
                       None \<Rightarrow> T_IDENT w
                     | Some instructionIndex \<Rightarrow> T_INSTRUCTION instructionIndex])"
proof -
  from assms(1) obtain c cs where w: "w = c # cs" and c: "is_capital c"
    and cs: "list_all is_name_char cs"
    by (auto simp: is_identifier_def split: list.splits)
  have "lexer_loop (c # cs @ d # rest) ln out
      = lexer_loop (d # rest) ln
          (out @ [case indexOf INSTRUCTIONS (c # cs) of
                    None \<Rightarrow> T_IDENT (c # cs)
                  | Some instructionIndex \<Rightarrow> T_INSTRUCTION instructionIndex])"
    by (subst lexer_loop.simps(2))
       (simp add: toUpperCase_capital [OF c] capital_facts [OF c]
          collectWhile_name [OF cs assms(2)] split: option.split)
  then show ?thesis
    unfolding w by simp
qed

lemma lexer_loop_colon:
  "lexer_loop (CHR '':'' # cs) ln out = lexer_loop cs ln (out @ [T_LABEL_MAKER])"
  by (simp add: lexer_loop.simps(2) toUpperCase_def newline_def NUMBERS_def SYMBOLS_def
        isLetter_def)

lemma not_name_chars:
  "\<not> isLetterOrNumber '':''" "\<not> isLetterOrNumber '' ''" "\<not> isLetterOrNumber [newline]"
  by (simp_all add: isLetterOrNumber_def isLetter_def NUMBERS_def newline_def)

lemma mnemonic_with_operand:
  assumes "1 \<le> k" and "k \<le> 9"
  shows "is_identifier (INSTRUCTIONS ! k)" "indexOf INSTRUCTIONS (INSTRUCTIONS ! k) = Some k"
    "nth_opt INSTRUCTION_ARG_LENGTHS k = Some 1"
proof -
  from assms have "k \<in> {1, 2, 3, 4, 5, 6, 7, 8, 9}"
    by auto
  then show "is_identifier (INSTRUCTIONS ! k)"
    "indexOf INSTRUCTIONS (INSTRUCTIONS ! k) = Some k"
    "nth_opt INSTRUCTION_ARG_LENGTHS k = Some 1"
    by (auto simp: INSTRUCTIONS_def INSTRUCTION_ARG_LENGTHS_def nth_opt_def is_identifier_def
          is_capital_iff is_name_char_def)
qed

text \<open>
  C5. For a program that consists of a label declaration followed by an instruction
  whose operand is that label, the image holds at the address of the instruction the
  word \<open>opcode * 1000\<close> or-ed bitwise with the address recorded for the label. Here for
  every identifier \<open>name\<close> that is not a mnemonic and every mnemonic with one operand
  (the opcodes 1 to 9), on the source text \<^verbatim>\<open>name:\<close>, any number of spaces, the
  mnemonic, one or more spaces, \<^verbatim>\<open>name\<close>: the label and the instruction both have the
  address 0.
\<close>

theorem label_then_instruction:
  assumes name: "is_identifier name" "indexOf INSTRUCTIONS name = None"
    and k: "1 \<le> k" "k \<le> 9"
  shows "assemble_text host
           (name @ '':'' @ replicate a (CHR '' '') @ INSTRUCTIONS ! k
              @ replicate (Suc b) (CHR '' '') @ name)
         = Some (Returns ((replicate 1000 0)[0 := bitwise_or (int (1000 * k)) 0]))"
proof -
  let ?mn = "INSTRUCTIONS ! k"
  let ?tail = "CHR '' '' # replicate b (CHR '' '') @ name @ [newline]"
  have "lexer_loop (name @ CHR '':'' # replicate a (CHR '' '') @ ?mn @ ?tail) 1 [T_LINENUM 1]
      = lexer_loop (CHR '':'' # replicate a (CHR '' '') @ ?mn @ ?tail) 1
          [T_LINENUM 1, T_IDENT name]"
    by (simp add: lexer_loop_word [OF name(1) not_name_chars(1)] name(2))
  also have "\<dots> = lexer_loop (?mn @ ?tail) 1 [T_LINENUM 1, T_IDENT name, T_LABEL_MAKER]"
    by (simp add: lexer_loop_colon lexer_loop_spaces)
  also have "\<dots> = lexer_loop ?tail 1
      [T_LINENUM 1, T_IDENT name, T_LABEL_MAKER, T_INSTRUCTION k]"
    by (simp add: lexer_loop_word [OF mnemonic_with_operand(1) [OF k] not_name_chars(2)]
          mnemonic_with_operand(2) [OF k])
  also have "\<dots> = lexer_loop (name @ [newline]) 1
      [T_LINENUM 1, T_IDENT name, T_LABEL_MAKER, T_INSTRUCTION k]"
    by (simp add: lexer_loop_space lexer_loop_spaces)
  also have "\<dots> = lexer_loop [newline] 1
      [T_LINENUM 1, T_IDENT name, T_LABEL_MAKER, T_INSTRUCTION k, T_IDENT name]"
    by (simp add: lexer_loop_word [OF name(1) not_name_chars(3)] name(2))
  also have "\<dots> = Some (Inr [T_LINENUM 1, T_IDENT name, T_LABEL_MAKER, T_INSTRUCTION k,
      T_IDENT name, T_LINENUM 2])"
    by (simp add: lexer_loop_newline)
  finally have lexed: "lexer (name @ '':'' @ replicate a (CHR '' '') @ ?mn
        @ replicate (Suc b) (CHR '' '') @ name)
      = Some (Inr [T_LINENUM 1, T_IDENT name, T_LABEL_MAKER, T_INSTRUCTION k, T_IDENT name,
                   T_LINENUM 2])"
    by (simp add: lexer_def)
  have parsed: "parser [T_LINENUM 1, T_IDENT name, T_LABEL_MAKER, T_INSTRUCTION k, T_IDENT name,
                        T_LINENUM 2]
      = Inr [E_LINENUM 1, E_LABEL name, E_INSTRUCTION k [[T_IDENT name]], E_LINENUM 2]"
    by (simp add: parser_def parser_loop.simps(2) collectCommaSeparated_def
          mnemonic_with_operand(3) [OF k])
  have evaluated: "js_eval host [name \<mapsto> 0] name = Returns (JNumber 0)"
    by (simp add: js_eval_identifier name(1) resolve_def js_number_def)
  have base: "\<bar>int (1000 * k)\<bar> \<le> 2 ^ 53"
    using k(2) by simp
  have "assembler host [E_LINENUM 1, E_LABEL name, E_INSTRUCTION k [[T_IDENT name]], E_LINENUM 2]
      = Returns ((replicate 1000 0)[0 := bitwise_or (int (1000 * k)) 0])"
    using base
    by (simp add: pass1_defs source_text_identifier evaluated value_to_int32_def ToInt32_def)
  then show ?thesis
    by (rule assemble_textI [OF lexed parsed])
qed

theorem label_then_instruction_witness:
  "is_identifier ''LOOP'' \<and> indexOf INSTRUCTIONS ''LOOP'' = None \<and> (1::nat) \<le> 5 \<and> (5::nat) \<le> 9
   \<and> assemble_text bare_host ''LOOP: JMP LOOP'' = Some (Returns ((replicate 1000 0)[0 := 5000]))"
proof -
  have hyps: "is_identifier ''LOOP''" "indexOf INSTRUCTIONS ''LOOP'' = None"
    "(1::nat) \<le> 5" "(5::nat) \<le> 9"
    by (simp_all add: is_identifier_def is_capital_iff is_name_char_def INSTRUCTIONS_def)
  have "bitwise_or 5000 0 = 5000"
    by (simp add: bitwise_or_def)
  with label_then_instruction [OF hyps, of bare_host 1 0]
  have "assemble_text bare_host ''LOOP: JMP LOOP''
      = Some (Returns ((replicate 1000 0)[0 := 5000]))"
    by (simp add: INSTRUCTIONS_def)
  with hyps show ?thesis
    by simp
qed

end
